(* ===== verification/Prelude.thy ===== *)
theory Prelude
  imports Main "HOL-Library.Word" "HOL-Library.Monad_Syntax"
begin

text \<open>
  Shared vocabulary of the development: the C integer types as words, memory objects as lists of
  bytes, checked reads and copies, decimal digits, and the collections of simplification rules
  the component theories extend.

  A pointer into an object is its offset from the start of the object (a \<open>nat\<close>), so a read or a
  copy outside the object is visible: it is the value \<open>None\<close>, the model of undefined behaviour.
  Every operation of the program that touches memory returns an \<open>option\<close>, and the component
  theories prove when it is \<open>Some\<close>.
\<close>

type_synonym byte = "8 word"
type_synonym u16 = "16 word"
type_synonym u32 = "32 word"
type_synonym u64 = "64 word"
type_synonym size_t = "64 word"
type_synonym bytes = "byte list"
type_synonym ptr = nat

named_theorems cursor_laws \<open>how the cursor operations move start and length\<close>
named_theorems mem_simps \<open>views of memory objects and checked accesses\<close>
named_theorems dec_simps \<open>decimal digits\<close>

subsection \<open>Characters and bytes\<close>

definition chr :: "char \<Rightarrow> byte" where
  "chr c = of_char c"

lemma chr_eq_iff [simp]: "chr c = chr d \<longleftrightarrow> c = d"
proof
  have "chr x = of_nat (of_char x)" for x
    by (simp only: chr_def of_nat_of_char)
  then have "unat (chr x) = of_char x" for x
    by (simp add: unat_of_nat)
  then show "chr c = chr d \<Longrightarrow> c = d"
    by (metis of_char_eq_iff)
qed simp

definition str :: "string \<Rightarrow> bytes" where
  "str s = map chr s"

lemma str_Nil [simp]: "str [] = []"
  by (simp add: str_def)

lemma str_Cons [simp]: "str (c # cs) = chr c # str cs"
  by (simp add: str_def)

text \<open>The C library's \<open>isdigit\<close>: true of the ten decimal digits only, in every locale.\<close>

definition isdigit :: "byte \<Rightarrow> bool" where
  "isdigit b \<longleftrightarrow> 48 \<le> b \<and> b \<le> 57"

lemma isdigit_unat: "isdigit b \<longleftrightarrow> 48 \<le> unat b \<and> unat b \<le> 57"
  by (simp add: isdigit_def word_le_nat_alt)

lemma not_isdigit_e [simp]: "\<not> isdigit (chr CHR ''e'')"
  by (simp add: isdigit_def chr_def)

lemma not_isdigit_colon [simp]: "\<not> isdigit (chr CHR '':'')"
  by (simp add: isdigit_def chr_def)

lemma not_isdigit_minus [simp]: "\<not> isdigit (chr CHR ''-'')"
  by (simp add: isdigit_def chr_def)

subsection \<open>Memory objects\<close>

definition load :: "bytes \<Rightarrow> ptr \<Rightarrow> byte option" where
  "load m p = (if p < length m then Some (m ! p) else None)"

definition view :: "bytes \<Rightarrow> ptr \<Rightarrow> nat \<Rightarrow> bytes" where
  "view m p n = take n (drop p m)"

definition inside :: "bytes \<Rightarrow> ptr \<Rightarrow> nat \<Rightarrow> bool" where
  "inside m p n \<longleftrightarrow> p + n \<le> length m"

text \<open>Reading \<open>n\<close> bytes at \<open>p\<close>, and \<open>memcpy\<close> of \<open>n\<close> bytes into an object at an offset.\<close>

definition load_bytes :: "bytes \<Rightarrow> ptr \<Rightarrow> nat \<Rightarrow> bytes option" where
  "load_bytes m p n = (if inside m p n then Some (view m p n) else None)"

definition memcpy :: "bytes \<Rightarrow> nat \<Rightarrow> bytes \<Rightarrow> nat \<Rightarrow> bytes option" where
  "memcpy dst off src n =
     (if n \<le> length src \<and> off + n \<le> length dst
      then Some (take off dst @ take n src @ drop (off + n) dst) else None)"

lemma view_0 [mem_simps]: "view m p 0 = []"
  by (simp add: view_def)

lemma length_view [mem_simps]: "inside m p n \<Longrightarrow> length (view m p n) = n"
  by (auto simp: view_def inside_def)

lemma view_Suc:
  assumes "inside m p n" "n \<noteq> 0"
  shows "view m p n = m ! p # view m (p + 1) (n - 1)"
proof -
  from assms obtain k where k: "n = Suc k" by (cases n) auto
  with assms have "drop p m = m ! p # drop (Suc p) m"
    by (simp add: inside_def Cons_nth_drop_Suc)
  with k show ?thesis by (simp add: view_def)
qed

lemma view_drop [mem_simps]: "view m (p + k) (n - k) = drop k (view m p n)"
  by (simp add: view_def drop_take add.commute)

lemma view_tl [mem_simps]: "view m (Suc p) (n - Suc 0) = tl (view m p n)"
  using view_drop [of m p 1 n] by (simp add: drop_Suc)

lemma view_take [mem_simps]: "k \<le> n \<Longrightarrow> view m p k = take k (view m p n)"
  by (simp add: view_def)

lemma inside_mono: "inside m p n \<Longrightarrow> k + j \<le> n \<Longrightarrow> inside m (p + k) j"
  by (simp add: inside_def)

lemma load_inside [mem_simps]: "inside m p n \<Longrightarrow> n \<noteq> 0 \<Longrightarrow> load m p = Some (hd (view m p n))"
  by (simp add: view_Suc) (simp add: load_def inside_def)

lemma length_memcpy: "memcpy dst off src n = Some d \<Longrightarrow> length d = length dst"
  by (auto simp: memcpy_def split: if_splits)

subsection \<open>Machine words\<close>

lemma unat_minus_1 [mem_simps]: "(n :: size_t) \<noteq> 0 \<Longrightarrow> unat (n - 1) = unat n - 1"
  by (metis unat_minus_one)

lemma unat_minus_le [mem_simps]: "k \<le> n \<Longrightarrow> unat ((n :: size_t) - k) = unat n - unat k"
  by (simp add: unat_sub)

lemma unat_of_nat_le: "k \<le> unat (n :: size_t) \<Longrightarrow> unat (of_nat k :: size_t) = k"
  by (rule le_unat_uoi)

lemma of_nat_le_word: "k \<le> unat (n :: size_t) \<Longrightarrow> of_nat k \<le> n"
  by (simp add: word_le_nat_alt unat_of_nat_le)

lemma unat_minus_of_nat [mem_simps]:
  "k \<le> unat (n :: size_t) \<Longrightarrow> unat (n - of_nat k) = unat n - k"
  by (simp add: unat_minus_le of_nat_le_word unat_of_nat_le)

text \<open>\<open>INT_MAX\<close> for an \<open>int\<close> of 32 bits.\<close>

definition INT_MAX :: nat where
  "INT_MAX = 2 ^ 31 - 1"

lemma unat_size_t_less: "unat (n :: size_t) < 2 ^ 64"
  using unsigned_less [where w = n] by simp

subsection \<open>Decimal digits\<close>

text \<open>The value of a string of digits, and the same accumulation in a 64-bit register.\<close>

definition dec_val :: "bytes \<Rightarrow> nat" where
  "dec_val ds = foldl (\<lambda>n d. n * 10 + (unat d - 48)) 0 ds"

definition dec_acc :: "u64 \<Rightarrow> bytes \<Rightarrow> u64" where
  "dec_acc v ds = foldl (\<lambda>n d. n * 10 + (ucast d - 48)) v ds"

text \<open>The decimal rendering of \<open>printf\<close>'s \<open>%zu\<close> and of the magnitude of \<open>%lld\<close>.\<close>

fun dec_digits :: "nat \<Rightarrow> bytes" where
  "dec_digits n =
     (if n < 10 then [of_nat n + 48] else dec_digits (n div 10) @ [of_nat (n mod 10) + 48])"

declare dec_digits.simps [simp del]

lemma dec_acc_Nil [dec_simps]: "dec_acc v [] = v"
  by (simp add: dec_acc_def)

lemma dec_acc_Cons [dec_simps]: "dec_acc v (d # ds) = dec_acc (v * 10 + (ucast d - 48)) ds"
  by (simp add: dec_acc_def)

lemma ucast_digit: "isdigit d \<Longrightarrow> (ucast d - 48 :: u64) = of_nat (unat d - 48)"
proof -
  assume d: "isdigit d"
  then have "48 \<le> unat d" by (simp add: isdigit_unat)
  then have "(of_nat (unat d - 48) :: u64) = of_nat (unat d) - of_nat 48"
    by (rule of_nat_diff)
  moreover have "(of_nat (unat d) :: u64) = ucast d"
    by simp
  ultimately show ?thesis by simp
qed

text \<open>The register holds the value modulo \<open>2 ^ 64\<close>.\<close>

lemma dec_acc_of_nat:
  "list_all isdigit ds \<Longrightarrow>
     dec_acc (of_nat n) ds = of_nat (foldl (\<lambda>n d. n * 10 + (unat d - 48)) n ds)"
proof (induction ds arbitrary: n)
  case Nil
  then show ?case by (simp add: dec_simps)
next
  case (Cons d ds)
  then have "(of_nat n * 10 + (ucast d - 48) :: u64) = of_nat (n * 10 + (unat d - 48))"
    by (simp add: ucast_digit)
  then have "dec_acc (of_nat n) (d # ds) = dec_acc (of_nat (n * 10 + (unat d - 48))) ds"
    by (simp only: dec_acc_Cons)
  also have "\<dots> = of_nat (foldl (\<lambda>n d. n * 10 + (unat d - 48)) (n * 10 + (unat d - 48)) ds)"
    using Cons.prems by (intro Cons.IH) simp
  finally show ?case by simp
qed

lemma dec_acc_dec_val: "list_all isdigit ds \<Longrightarrow> dec_acc 0 ds = of_nat (dec_val ds)"
  using dec_acc_of_nat [of ds 0] by (simp add: dec_val_def)

lemma unat_digit: "n < 10 \<Longrightarrow> unat (of_nat n + 48 :: byte) = n + 48"
  by (simp add: unat_word_ariths unat_of_nat)

lemma isdigit_digit: "n < 10 \<Longrightarrow> isdigit (of_nat n + 48)"
  by (simp add: isdigit_unat unat_digit)

lemma dec_digits_isdigit [dec_simps]: "list_all isdigit (dec_digits n)"
proof (induction n rule: dec_digits.induct)
  case (1 n)
  then show ?case
    by (subst dec_digits.simps) (auto simp: isdigit_digit)
qed

lemma dec_digits_not_Nil [simp]: "dec_digits n \<noteq> []"
  by (subst dec_digits.simps) simp

lemma dec_val_dec_digits [dec_simps]: "dec_val (dec_digits n) = n"
proof (induction n rule: dec_digits.induct)
  case (1 n)
  show ?case
  proof (cases "n < 10")
    case True
    then show ?thesis
      by (subst dec_digits.simps) (simp add: dec_val_def unat_digit)
  next
    case False
    with 1 have "foldl (\<lambda>n d. n * 10 + (unat d - 48)) 0 (dec_digits (n div 10)) = n div 10"
      by (simp add: dec_val_def)
    with False show ?thesis
      by (subst dec_digits.simps) (simp add: dec_val_def unat_digit)
  qed
qed

lemma hd_dec_digits: "isdigit (hd (dec_digits n))"
  by (metis dec_digits_isdigit dec_digits_not_Nil list.set_sel(1) list_all_iff)

text \<open>Where a run of digits ends.\<close>

declare dropWhile_eq_Nil_conv [simp del]

lemma takeWhile_digits [dec_simps]:
  "list_all isdigit ds \<Longrightarrow> \<not> isdigit x \<Longrightarrow> takeWhile isdigit (ds @ x # r) = ds"
  by (induction ds) auto

lemma dropWhile_digits [dec_simps]:
  "list_all isdigit ds \<Longrightarrow> \<not> isdigit x \<Longrightarrow> dropWhile isdigit (ds @ x # r) = x # r"
  by (induction ds) auto

subsection \<open>Lists\<close>

lemma takeWhile_shorter: "x \<in> set xs \<Longrightarrow> \<not> P x \<Longrightarrow> length (takeWhile P xs) < length xs"
  by (induction xs) auto

end
