(* ===== verification/Cursor.thy ===== *)
theory Cursor
  imports Prelude
begin

text \<open>
  The interface of a read cursor: a pointer into a memory object and the number of bytes left.
  Both readers of the repository (\<open>benr.c\<close> with \<open>struct benr_ctx\<close>, \<open>benp.c\<close> with
  \<open>struct benp_ctx\<close>) own one, with the same four helpers \<open>ctx_peek\<close>, \<open>ctx_adv\<close>,
  \<open>ctx_adv_n\<close> and \<open>ctx_next\<close>, and both scan decimal numbers with the same loop. The locale
  \<open>byte_cursor\<close> states what the helpers promise, \<open>uint_scanner\<close> adds a scanning loop over
  such a cursor; their lemmas are proved here once and interpreted in Benr and Benp.
\<close>

text \<open>How the scan of an unsigned number leaves its loop: at the end byte with a value and the
  cursor after it, at a byte that is no digit, or at the end of the data.\<close>

datatype 'c uint_scan = Scan_end u64 'c | Scan_byte ptr | Scan_eof

text \<open>The reference scan over the bytes in view: \<open>k\<close> digits, then the byte that stops them.\<close>

definition scan_view :: "(ptr \<Rightarrow> size_t \<Rightarrow> 'c) \<Rightarrow> byte \<Rightarrow> u64 \<Rightarrow> ptr \<Rightarrow> size_t \<Rightarrow> bytes \<Rightarrow> 'c uint_scan" where
  "scan_view mk e v p n bs =
     (let ds = takeWhile isdigit bs; k = length ds in
      case dropWhile isdigit bs of
        [] \<Rightarrow> Scan_eof
      | b # _ \<Rightarrow> if b = e then Scan_end (dec_acc v ds) (mk (p + Suc k) (n - of_nat (Suc k)))
                else Scan_byte (p + k))"

lemma scan_view_Nil: "scan_view mk e v p n [] = Scan_eof"
  by (simp add: scan_view_def)

lemma scan_view_digit:
  "isdigit b \<Longrightarrow> b \<noteq> e \<Longrightarrow>
     scan_view mk e v p n (b # bs) = scan_view mk e (v * 10 + (ucast b - 48)) (p + 1) (n - 1) bs"
  by (cases "dropWhile isdigit bs") 
     (simp_all add: scan_view_def dec_simps Let_def algebra_simps)

lemma scan_view_end: "\<not> isdigit e \<Longrightarrow> scan_view mk e v p n (e # bs) = Scan_end v (mk (p + 1) (n - 1))"
  by (simp add: scan_view_def dec_simps)

lemma scan_view_other:
  "\<not> isdigit b \<Longrightarrow> b \<noteq> e \<Longrightarrow> scan_view mk e v p n (b # bs) = Scan_byte p"
  by (simp add: scan_view_def)

locale byte_cursor =
  fixes start :: "'c \<Rightarrow> ptr"
    and len :: "'c \<Rightarrow> size_t"
    and mk :: "ptr \<Rightarrow> size_t \<Rightarrow> 'c"
    and peek :: "bytes \<Rightarrow> 'c \<Rightarrow> byte option"
    and adv :: "'c \<Rightarrow> 'c"
    and adv_n :: "'c \<Rightarrow> size_t \<Rightarrow> 'c"
    and fetch :: "bytes \<Rightarrow> 'c \<Rightarrow> (byte \<times> 'c) option"
  assumes start_mk [simp]: "start (mk p n) = p"
    and len_mk [simp]: "len (mk p n) = n"
    and mk_eta: "mk (start c) (len c) = c"
    and peek_load: "peek m c = load m (start c)"
    and adv_mk: "adv c = mk (start c + 1) (len c - 1)"
    and adv_n_mk: "adv_n c k = mk (start c + unat k) (len c - k)"
    and fetch_peek: "fetch m c = Option.bind (peek m c) (\<lambda>b. Some (b, adv c))"
begin

text \<open>A helper applied to a cursor inside its object with bytes left is defined, and what it
  leaves is inside the object again.\<close>

lemma peek_in: "inside m (start c) (unat (len c)) \<Longrightarrow> len c \<noteq> 0 \<Longrightarrow>
    peek m c = Some (hd (view m (start c) (unat (len c))))"
  by (simp add: peek_load load_inside unat_eq_zero)

lemma peek_Cons: "inside m (start c) (unat (len c)) \<Longrightarrow> view m (start c) (unat (len c)) = b # bs \<Longrightarrow>
    peek m c = Some b \<and> len c \<noteq> 0"
  using peek_in by (fastforce simp: mem_simps)

lemma fetch_Cons: "inside m (start c) (unat (len c)) \<Longrightarrow> view m (start c) (unat (len c)) = b # bs \<Longrightarrow>
    fetch m c = Some (b, adv c)"
  by (simp add: fetch_peek peek_Cons)

lemma view_adv: "len c \<noteq> 0 \<Longrightarrow>
    view m (start (adv c)) (unat (len (adv c))) = tl (view m (start c) (unat (len c)))"
  by (simp add: adv_mk mem_simps)

lemma inside_adv: "inside m (start c) (unat (len c)) \<Longrightarrow> len c \<noteq> 0 \<Longrightarrow>
    inside m (start (adv c)) (unat (len (adv c)))"
  by (auto simp: adv_mk mem_simps inside_def unat_gt_0 Suc_le_eq unat_eq_zero)

lemma adv_Cons:
  assumes "inside m (start c) (unat (len c))" "view m (start c) (unat (len c)) = b # bs"
  shows "inside m (start (adv c)) (unat (len (adv c)))"
    and "view m (start (adv c)) (unat (len (adv c))) = bs"
  using assms peek_Cons [OF assms] view_adv [of c m] by (auto intro: inside_adv)

lemma view_adv_n: "k \<le> len c \<Longrightarrow>
    view m (start (adv_n c k)) (unat (len (adv_n c k))) = drop (unat k) (view m (start c) (unat (len c)))"
  by (simp add: adv_n_mk mem_simps)

lemma inside_adv_n: "inside m (start c) (unat (len c)) \<Longrightarrow> k \<le> len c \<Longrightarrow>
    inside m (start (adv_n c k)) (unat (len (adv_n c k)))"
  by (simp add: adv_n_mk mem_simps inside_def word_le_nat_alt)

end

locale uint_scanner = byte_cursor start len mk peek adv adv_n fetch
  for start :: "'c \<Rightarrow> ptr"
    and len :: "'c \<Rightarrow> size_t"
    and mk :: "ptr \<Rightarrow> size_t \<Rightarrow> 'c"
    and peek :: "bytes \<Rightarrow> 'c \<Rightarrow> byte option"
    and adv :: "'c \<Rightarrow> 'c"
    and adv_n :: "'c \<Rightarrow> size_t \<Rightarrow> 'c"
    and fetch :: "bytes \<Rightarrow> 'c \<Rightarrow> (byte \<times> 'c) option" +
  fixes scan :: "bytes \<Rightarrow> byte \<Rightarrow> u64 \<Rightarrow> 'c \<Rightarrow> 'c uint_scan option"
  assumes scan_unfold: "scan m e v c =
     (if len c \<noteq> 0 then
        Option.bind (fetch m c) (\<lambda>(it, c').
          if it = e then Some (Scan_end v c')
          else if \<not> isdigit it then Some (Scan_byte (start c' - 1))
          else scan m e (v * 10 + (ucast it - 48)) c')
      else Some Scan_eof)"
begin

text \<open>The loop never leaves the object, and computes the reference scan of its view.\<close>

lemma scan_eq:
  assumes "inside m (start c) (unat (len c))" "\<not> isdigit e"
  shows "scan m e v c = Some (scan_view mk e v (start c) (len c) (view m (start c) (unat (len c))))"
  using assms
proof (induction "view m (start c) (unat (len c))" arbitrary: c v)
  case Nil
  then have "length (view m (start c) (unat (len c))) = 0" by simp
  with Nil.prems have "len c = 0" by (simp add: mem_simps unat_eq_zero)
  with Nil.hyps show ?case
    by (subst scan_unfold) (simp add: scan_view_Nil)
next
  case (Cons b bs)
  note view_c = Cons.hyps(2) [symmetric]
  from Cons.prems(1) view_c have ne: "len c \<noteq> 0" and f: "fetch m c = Some (b, adv c)"
    by (auto simp: peek_Cons fetch_Cons)
  from ne have view': "view m (start (adv c)) (unat (len (adv c))) = bs"
    by (simp add: view_adv view_c)
  from ne Cons.prems(1) have in': "inside m (start (adv c)) (unat (len (adv c)))"
    by (rule inside_adv [rotated])
  have rec: "scan m e v' (adv c) = Some (scan_view mk e v' (start c + 1) (len c - 1) bs)" for v'
    using Cons.hyps(1) [of "adv c" v'] view' in' Cons.prems(2) by (simp add: adv_mk)
  show ?case
  proof (cases "isdigit b")
    case True
    with Cons.prems(2) have "b \<noteq> e" by auto
    with True show ?thesis
      by (subst scan_unfold) (simp add: ne f view_c rec scan_view_digit)
  next
    case False
    then show ?thesis
      using Cons.prems(2)
      by (subst scan_unfold)
         (auto simp: ne f view_c scan_view_end scan_view_other adv_mk)
  qed
qed

text \<open>Where the loop stops is never before where it started.\<close>

lemma scan_later:
  "scan m e v c = Some r \<Longrightarrow>
     (case r of Scan_byte p \<Rightarrow> start c \<le> p | Scan_end w c' \<Rightarrow> start c \<le> start c' | Scan_eof \<Rightarrow> True)"
proof (induction "unat (len c)" arbitrary: c v rule: less_induct)
  case less
  show ?case
  proof (cases "len c = 0")
    case True
    with less.prems show ?thesis by (subst (asm) scan_unfold) auto
  next
    case False
    then have "unat (len (adv c)) < unat (len c)"
      by (simp add: adv_mk mem_simps unat_gt_0)
    with less.hyps have "scan m e v' (adv c) = Some r \<Longrightarrow> (case r of Scan_byte p \<Rightarrow> start (adv c) \<le> p
        | Scan_end w c' \<Rightarrow> start (adv c) \<le> start c' | Scan_eof \<Rightarrow> True)" for v'
      by blast
    with False less.prems show ?thesis
      by (subst (asm) scan_unfold)
         (fastforce simp: fetch_peek adv_mk split: bind_splits if_splits uint_scan.splits)
  qed
qed

end

end
