(* ===== verification/Bencode.thy ===== *)
theory Bencode
  imports Prelude
begin

text \<open>
  The abstract side of the bencode readers and writers: a reference lexer on lists of bytes, which
  the pointer-walking tokenizers of \<open>benr.c\<close> and \<open>benp.c\<close> refine, and bencoded values with
  their encoding (strings \<open>len:bytes\<close>, integers \<open>i..e\<close>, lists \<open>l..e\<close>, dictionaries \<open>d..e\<close>), which
  the writers of \<open>ben.h\<close> produce.
\<close>

subsection \<open>The reference lexer\<close>

text \<open>A token and the number of bytes it takes (0 for the end of the data and for errors). Errors
  carry the offset of the byte they are about, or the length that was too long.\<close>

datatype tok =
    Tok_none | Tok_int u64 | Tok_str bytes | Tok_dict | Tok_list | Tok_end
  | Tok_byte | Tok_eof | Tok_int_byte nat | Tok_int_eof | Tok_long u64

definition lex_int :: "u64 \<Rightarrow> nat \<Rightarrow> bytes \<Rightarrow> tok \<times> nat" where
  "lex_int s off bs =
     (let ds = takeWhile isdigit bs in
      case dropWhile isdigit bs of
        [] \<Rightarrow> (Tok_int_eof, 0)
      | b # _ \<Rightarrow> if b = chr CHR ''e'' then (Tok_int (dec_acc 0 ds * s), off + length ds + 1)
                else (Tok_int_byte (off + length ds), 0))"

definition lex_str :: "bytes \<Rightarrow> tok \<times> nat" where
  "lex_str bs =
     (let ds = takeWhile isdigit bs; n = dec_acc 0 ds in
      case dropWhile isdigit bs of
        [] \<Rightarrow> (Tok_int_eof, 0)
      | b # r \<Rightarrow> if b \<noteq> chr CHR '':'' then (Tok_int_byte (length ds), 0)
                else if unat n \<le> length r then (Tok_str (take (unat n) r), length ds + 1 + unat n)
                else (Tok_long n, 0))"

fun lex_tok :: "bytes \<Rightarrow> tok \<times> nat" where
  "lex_tok [] = (Tok_none, 0)"
| "lex_tok (b # bs) =
     (if b = chr CHR ''i'' then
        (case bs of
           [] \<Rightarrow> (Tok_eof, 0)
         | d # r \<Rightarrow> if d = chr CHR ''-'' then lex_int (- 1) 2 r else lex_int 1 1 bs)
      else if b = chr CHR ''d'' then (Tok_dict, 1)
      else if b = chr CHR ''l'' then (Tok_list, 1)
      else if b = chr CHR ''e'' then (Tok_end, 1)
      else if isdigit b then lex_str (b # bs)
      else (Tok_byte, 0))"

fun tok_error :: "tok \<Rightarrow> bool" where
  "tok_error Tok_byte = True"
| "tok_error Tok_eof = True"
| "tok_error (Tok_int_byte _) = True"
| "tok_error Tok_int_eof = True"
| "tok_error (Tok_long _) = True"
| "tok_error _ = False"

definition tok_stuck :: "tok \<Rightarrow> bool" where
  "tok_stuck t \<longleftrightarrow> t = Tok_none \<or> tok_error t"

text \<open>A token lies inside the input, and every token but an error takes at least a byte.\<close>

lemma dropWhile_length: "dropWhile P bs = b # r \<Longrightarrow> length bs = length (takeWhile P bs) + Suc (length r)"
  by (metis length_Cons length_append takeWhile_dropWhile_id)

lemma lex_int_le: "snd (lex_int s off bs) \<le> off + length bs"
  by (auto simp: lex_int_def Let_def dest!: dropWhile_length split: list.splits)

lemma lex_int_pos: "\<not> tok_stuck (fst (lex_int s off bs)) \<Longrightarrow> 0 < snd (lex_int s off bs)"
  by (auto simp: lex_int_def Let_def tok_stuck_def split: list.splits if_splits)

lemma lex_str_le: "snd (lex_str bs) \<le> length bs"
  by (auto simp: lex_str_def Let_def dest!: dropWhile_length split: list.splits)

lemma lex_str_pos: "\<not> tok_stuck (fst (lex_str bs)) \<Longrightarrow> 0 < snd (lex_str bs)"
  by (auto simp: lex_str_def Let_def tok_stuck_def split: list.splits if_splits)

lemma lex_le: "snd (lex_tok bs) \<le> length bs"
proof (cases bs)
  case (Cons b r)
  then show ?thesis
    using lex_int_le [of 1 1 r] lex_int_le [of "- 1" 2 "tl r"] lex_str_le [of bs]
    by (cases r) auto
qed simp

lemma lex_pos: "\<not> tok_stuck (fst (lex_tok bs)) \<Longrightarrow> 0 < snd (lex_tok bs)"
  by (cases bs rule: lex_tok.cases)
     (auto simp: lex_int_pos lex_str_pos tok_stuck_def split: list.splits if_splits)

lemma lex_int_stuck: "tok_stuck (fst (lex_int s off bs)) \<Longrightarrow> snd (lex_int s off bs) = 0"
  by (auto simp: lex_int_def Let_def tok_stuck_def split: list.splits if_splits)

lemma lex_str_stuck: "tok_stuck (fst (lex_str bs)) \<Longrightarrow> snd (lex_str bs) = 0"
  by (auto simp: lex_str_def Let_def tok_stuck_def split: list.splits if_splits)

lemma lex_stuck: "tok_stuck (fst (lex_tok bs)) \<Longrightarrow> snd (lex_tok bs) = 0"
  by (cases bs rule: lex_tok.cases)
     (auto simp: lex_int_stuck lex_str_stuck split: list.splits if_splits, auto simp: tok_stuck_def)

lemma lex_int_not_str: "fst (lex_int s off bs) \<noteq> Tok_str t"
  by (auto simp: lex_int_def Let_def split: list.splits if_splits)


text \<open>A string token is the last bytes of what it takes.\<close>

lemma lex_str_located:
  assumes "lex_str bs = (Tok_str s, n)"
  shows "length s \<le> n \<and> s = take (length s) (drop (n - length s) bs)"
proof -
  let ?ds = "takeWhile isdigit bs" and ?l = "unat (dec_acc 0 (takeWhile isdigit bs))"
  from assms obtain b r where d: "dropWhile isdigit bs = b # r"
      and s: "s = take ?l r" and l: "?l \<le> length r" and n: "n = length ?ds + 1 + ?l"
    by (auto simp: lex_str_def Let_def split: list.splits if_splits)
  from d have "bs = ?ds @ b # r" by (metis takeWhile_dropWhile_id)
  then have "drop (length ?ds + 1) bs = r"
    by (metis add.commute append_eq_conv_conj drop_drop drop_Suc_Cons drop_0 One_nat_def)
  with s l n show ?thesis by simp
qed

lemma lex_str_tok: "fst (lex_tok bs) = Tok_str s \<Longrightarrow> lex_tok bs = lex_str bs"
  by (cases bs rule: lex_tok.cases) (auto simp: lex_int_not_str split: list.splits if_splits)

lemma lex_located:
  "lex_tok bs = (Tok_str s, n) \<Longrightarrow> length s \<le> n \<and> s = take (length s) (drop (n - length s) bs)"
  using lex_str_tok [of bs s] lex_str_located [of bs s n] by simp

subsection \<open>Values and their encoding\<close>

datatype bval = BInt int | BStr bytes | BList "bval list" | BDict "(bytes \<times> bval) list"

definition enc_int :: "int \<Rightarrow> bytes" where
  "enc_int i = (if i < 0 then chr CHR ''-'' # dec_digits (nat (- i)) else dec_digits (nat i))"

definition enc_str :: "bytes \<Rightarrow> bytes" where
  "enc_str s = dec_digits (length s) @ chr CHR '':'' # s"

fun encode :: "bval \<Rightarrow> bytes" where
  "encode (BInt i) = chr CHR ''i'' # enc_int i @ [chr CHR ''e'']"
| "encode (BStr s) = enc_str s"
| "encode (BList vs) = chr CHR ''l'' # concat (map encode vs) @ [chr CHR ''e'']"
| "encode (BDict kvs) = chr CHR ''d'' # concat (map (\<lambda>(k, v). enc_str k @ encode v) kvs) @ [chr CHR ''e'']"

lemma lex_int_digits:
  assumes "list_all isdigit ds"
  shows "lex_int s off (ds @ chr CHR ''e'' # r) = (Tok_int (dec_acc 0 ds * s), off + length ds + 1)"
  using takeWhile_digits [OF assms not_isdigit_e, of r] dropWhile_digits [OF assms not_isdigit_e, of r]
  by (simp add: lex_int_def)

text \<open>The lexer reads an encoded integer and an encoded string back, whatever follows.\<close>

lemma lex_enc_int:
  "lex_tok (chr CHR ''i'' # enc_int i @ chr CHR ''e'' # r) = (Tok_int (of_int i), length (enc_int i) + 2)"
proof (cases "i < 0")
  case True
  then show ?thesis
    using lex_int_digits [of "dec_digits (nat (- i))" "- 1" 2 r]
    by (simp add: enc_int_def dec_simps dec_acc_dec_val)
next
  case False
  have "hd (dec_digits (nat i)) \<noteq> chr CHR ''-''"
    using hd_dec_digits [of "nat i"] by (auto simp: isdigit_def chr_def)
  then obtain d ds where d: "dec_digits (nat i) = d # ds" "d \<noteq> chr CHR ''-''"
    by (cases "dec_digits (nat i)") auto
  have "lex_int 1 1 (dec_digits (nat i) @ chr CHR ''e'' # r) =
      (Tok_int (of_int i), length (dec_digits (nat i)) + 2)"
    using False lex_int_digits [of "dec_digits (nat i)" 1 1 r]
    by (simp add: dec_simps dec_acc_dec_val)
  with False d show ?thesis by (simp add: enc_int_def)
qed

lemma isdigit_not_marker:
  "isdigit b \<Longrightarrow> b \<noteq> chr CHR ''i'' \<and> b \<noteq> chr CHR ''d'' \<and> b \<noteq> chr CHR ''l'' \<and> b \<noteq> chr CHR ''e''"
  by (auto simp: isdigit_def chr_def)

lemma lex_enc_str:
  assumes "length s < 2 ^ 64"
  shows "lex_tok (enc_str s @ r) = (Tok_str s, length (enc_str s))"
proof -
  let ?ds = "dec_digits (length s)"
  have n: "unat (dec_acc 0 ?ds) = length s"
    using assms by (simp add: dec_simps dec_acc_dec_val unat_of_nat)
  have "takeWhile isdigit (enc_str s @ r) = ?ds"
      "dropWhile isdigit (enc_str s @ r) = chr CHR '':'' # s @ r"
    using takeWhile_digits [OF dec_digits_isdigit not_isdigit_colon, of "length s" "s @ r"]
      dropWhile_digits [OF dec_digits_isdigit not_isdigit_colon, of "length s" "s @ r"]
    by (simp_all add: enc_str_def)
  then have "lex_str (enc_str s @ r) = (Tok_str s, length (enc_str s))"
    by (simp add: lex_str_def n) (simp add: enc_str_def)
  moreover obtain d ds where "?ds = d # ds" "isdigit d"
    using hd_dec_digits [of "length s"] by (cases ?ds) auto
  moreover from this have "d \<noteq> chr CHR ''i'' \<and> d \<noteq> chr CHR ''d'' \<and> d \<noteq> chr CHR ''l'' \<and> d \<noteq> chr CHR ''e''"
    using isdigit_not_marker by blast
  ultimately show ?thesis
    by (simp add: enc_str_def)
qed

end
