(* ===== verification/Tokenizer.thy ===== *)
theory Tokenizer
  imports Cursor Bencode
begin

text \<open>
  The algorithm \<open>benr_next\<close> and \<open>benp_next\<close> share, as an interface: a cursor with its scanning
  loop, and a tokenizer over it whose results are built by \<open>ev\<close> from the place of the token, the
  bytes in view there, the token and the bytes it takes. The locale proves that such a tokenizer
  computes the reference lexer of Bencode; Benr and Benp interpret it on their own functions.
\<close>

lemma view_Nil_iff: "inside m p (unat (n :: size_t)) \<Longrightarrow> view m p (unat n) = [] \<longleftrightarrow> n = 0"
  by (metis length_0_conv length_view unat_eq_zero)

text \<open>\<open>SIZE_MAX\<close> is the greatest value of the type.\<close>

lemma not_above_max [simp]: "\<not> (- 1 :: u64) < u"
  by (simp add: not_less)

locale tokenizer = uint_scanner start len mk peek adv adv_n fetch scan
  for start :: "'c \<Rightarrow> ptr"
    and len :: "'c \<Rightarrow> size_t"
    and mk :: "ptr \<Rightarrow> size_t \<Rightarrow> 'c"
    and peek :: "bytes \<Rightarrow> 'c \<Rightarrow> byte option"
    and adv :: "'c \<Rightarrow> 'c"
    and adv_n :: "'c \<Rightarrow> size_t \<Rightarrow> 'c"
    and fetch :: "bytes \<Rightarrow> 'c \<Rightarrow> (byte \<times> 'c) option"
    and scan :: "bytes \<Rightarrow> byte \<Rightarrow> u64 \<Rightarrow> 'c \<Rightarrow> 'c uint_scan option" +
  fixes ev :: "ptr \<Rightarrow> size_t \<Rightarrow> tok \<Rightarrow> nat \<Rightarrow> 't"
    and token :: "bytes \<Rightarrow> 'c \<Rightarrow> ('t \<times> 'c) option"
  assumes token_done: "len c = 0 \<Longrightarrow> token m c = Some (ev (start c) (len c) Tok_none 0, c)"
    and token_dict: "len c \<noteq> 0 \<Longrightarrow> peek m c = Some (chr CHR ''d'') \<Longrightarrow>
      token m c = Some (ev (start c) (len c) Tok_dict 1, adv c)"
    and token_list: "len c \<noteq> 0 \<Longrightarrow> peek m c = Some (chr CHR ''l'') \<Longrightarrow>
      token m c = Some (ev (start c) (len c) Tok_list 1, adv c)"
    and token_end: "len c \<noteq> 0 \<Longrightarrow> peek m c = Some (chr CHR ''e'') \<Longrightarrow>
      token m c = Some (ev (start c) (len c) Tok_end 1, adv c)"
    and token_byte: "len c \<noteq> 0 \<Longrightarrow> peek m c = Some b \<Longrightarrow> b \<notin> chr ` set ''idle'' \<Longrightarrow> \<not> isdigit b \<Longrightarrow>
      token m c = Some (ev (start c) (len c) Tok_byte 0, c)"
    and token_eof: "len c \<noteq> 0 \<Longrightarrow> peek m c = Some (chr CHR ''i'') \<Longrightarrow> len (adv c) = 0 \<Longrightarrow>
      token m c = Some (ev (start c) (len c) Tok_eof 0, c)"
    and token_int: "len c \<noteq> 0 \<Longrightarrow> peek m c = Some (chr CHR ''i'') \<Longrightarrow> len (adv c) \<noteq> 0 \<Longrightarrow>
      peek m (adv c) = Some d \<Longrightarrow>
      scan m (chr CHR ''e'') 0 (if d = chr CHR ''-'' then adv (adv c) else adv c) = Some r \<Longrightarrow>
      token m c = Some (case r of
          Scan_end v c' \<Rightarrow> (ev (start c) (len c) (Tok_int (v * (if d = chr CHR ''-'' then - 1 else 1))) (start c' - start c), c')
        | Scan_byte p \<Rightarrow> (ev (start c) (len c) (Tok_int_byte (p - start c)) 0, c)
        | Scan_eof \<Rightarrow> (ev (start c) (len c) Tok_int_eof 0, c))"
    and token_str: "len c \<noteq> 0 \<Longrightarrow> peek m c = Some b \<Longrightarrow> b \<notin> chr ` set ''idle'' \<Longrightarrow> isdigit b \<Longrightarrow>
      scan m (chr CHR '':'') 0 c = Some r \<Longrightarrow>
      (\<And>v c'. r = Scan_end v c' \<Longrightarrow> v \<le> len c' \<Longrightarrow> inside m (start c') (unat (len c'))) \<Longrightarrow>
      token m c = Some (case r of
          Scan_end v c' \<Rightarrow>
            if len c' < v then (ev (start c) (len c) (Tok_long v) 0, c)
            else (ev (start c) (len c) (Tok_str (view m (start c') (unat v))) (start c' + unat v - start c),
                  adv_n c' v)
        | Scan_byte p \<Rightarrow> (ev (start c) (len c) (Tok_int_byte (p - start c)) 0, c)
        | Scan_eof \<Rightarrow> (ev (start c) (len c) Tok_int_eof 0, c))"
begin

abbreviation "in_obj m c \<equiv> inside m (start c) (unat (len c))"
abbreviation "in_view m c \<equiv> view m (start c) (unat (len c))"

abbreviation lexed :: "'c \<Rightarrow> tok \<times> nat \<Rightarrow> 't \<times> 'c" where
  "lexed c t \<equiv> (ev (start c) (len c) (fst t) (snd t), mk (start c + snd t) (len c - of_nat (snd t)))"

lemma token_int_lex:
  assumes "in_obj m c" "in_view m c = chr CHR ''i'' # bs"
  shows "token m c = Some (lexed c (lex_tok (in_view m c)))"
proof -
  from assms have c: "len c \<noteq> 0" "peek m c = Some (chr CHR ''i'')"
    by (simp_all add: peek_Cons)
  note c1 = adv_Cons [OF assms]
  show ?thesis
  proof (cases bs)
    case Nil
    with c1 have "len (adv c) = 0" by (simp add: view_Nil_iff)
    with Nil assms c show ?thesis by (simp add: token_eof mk_eta)
  next
    case (Cons d r)
    with c1 have d: "peek m (adv c) = Some d" "len (adv c) \<noteq> 0"
      by (simp_all add: peek_Cons)
    note c2 = adv_Cons [OF c1(1) c1(2) [unfolded Cons]]
    let ?c = "if d = chr CHR ''-'' then adv (adv c) else adv c"
    let ?s = "if d = chr CHR ''-'' then - 1 else 1 :: u64"
    let ?k = "if d = chr CHR ''-'' then 2 else 1 :: nat"
    obtain W where W: "in_view m ?c = W" by simp
    have st: "start ?c = start c + ?k" "len ?c = len c - of_nat ?k"
      by (simp_all add: adv_mk)
    have "in_obj m ?c" using c1 c2 by simp
    from scan_eq [OF this not_isdigit_e, of 0]
    have "scan m (chr CHR ''e'') 0 ?c = Some (scan_view mk (chr CHR ''e'') 0 (start ?c) (len ?c) W)"
      by (simp only: W)
    then have scan: "scan m (chr CHR ''e'') 0 ?c =
        Some (scan_view mk (chr CHR ''e'') 0 (start c + ?k) (len c - of_nat ?k) W)"
      by (simp only: st)
    have "token m c = Some (lexed c (lex_int ?s ?k W))"
      by (subst token_int [OF c d(2) d(1) scan])
         (cases "dropWhile isdigit W";
          simp add: scan_view_def lex_int_def Let_def mk_eta algebra_simps)+
    moreover have "lex_tok (in_view m c) = lex_int ?s ?k W"
      using assms(2) Cons W c1(2) c2(2) by auto
    ultimately show ?thesis by simp
  qed
qed

lemma token_str_lex:
  assumes "in_obj m c" "in_view m c = b # bs" "isdigit b"
  shows "token m c = Some (lexed c (lex_tok (in_view m c)))"
proof -
  obtain W where W: "in_view m c = W" by simp
  let ?ds = "takeWhile isdigit W" and ?v = "dec_acc 0 (takeWhile isdigit W)"
  let ?k = "Suc (length ?ds)"
  from assms have c: "len c \<noteq> 0" "peek m c = Some b"
    by (simp_all add: peek_Cons)
  have b: "b \<notin> chr ` set ''idle''"
    using isdigit_not_marker [OF assms(3)] by simp
  note scan = scan_eq [OF assms(1) not_isdigit_colon, of 0, unfolded W]
  have lex: "lex_tok W = lex_str W"
    using assms b W by auto
  show ?thesis
  proof (cases "dropWhile isdigit W")
    case Nil
    then show ?thesis
      by (subst token_str [OF c b assms(3) scan])
         (simp_all add: W scan_view_def lex lex_str_def Let_def mk_eta)
  next
    case (Cons x r)
    let ?c' = "mk (start c + ?k) (len c - of_nat ?k)"
    have len: "unat (len c) = length ?ds + Suc (length r)"
      using dropWhile_length [OF Cons] length_view [OF assms(1)] W by simp
    then have k: "?k \<le> unat (len c)" by simp
    have "in_obj m ?c'"
      using assms(1) k by (simp add: inside_def unat_minus_of_nat del: of_nat_Suc)
    then have in': "scan_view mk (chr CHR '':'') 0 (start c) (len c) W = Scan_end v c' \<Longrightarrow> in_obj m c'" for v c'
      by (auto simp: scan_view_def Let_def Cons split: if_splits)
    have "in_view m ?c' = drop ?k W"
      using k by (simp add: unat_minus_of_nat view_drop W [symmetric] del: of_nat_Suc add_Suc_right)
    also have "\<dots> = r"
      using takeWhile_dropWhile_id [of isdigit W] Cons
      by (metis append_eq_conv_conj drop_Suc_Cons drop_0 length_append_singleton append.assoc append_Cons append_Nil)
    finally have view': "in_view m ?c' = r" .
    have n: "unat (len c - of_nat ?k) = length r"
      using k len by (simp add: unat_minus_of_nat del: of_nat_Suc)
    then have le: "len c - of_nat ?k < ?v \<longleftrightarrow> \<not> unat ?v \<le> length r"
      by (simp add: word_less_nat_alt not_le del: of_nat_Suc)
    have str: "unat ?v \<le> length r \<Longrightarrow> view m (start c + ?k) (unat ?v) = take (unat ?v) r"
      using view' n by (metis len_mk start_mk view_take)
    have sum: "?v + of_nat ?k = of_nat (Suc (length ?ds + unat ?v))"
      by simp
    have "token m c = Some (lexed c (lex_str W))"
      by (subst token_str [OF c b assms(3) scan in'], assumption)
         (auto simp: scan_view_def lex_str_def Let_def Cons mk_eta le str adv_n_mk sum algebra_simps
           simp del: of_nat_Suc add_Suc_right)
    with W lex show ?thesis by simp
  qed
qed

theorem token_lex:
  assumes "in_obj m c"
  shows "token m c = Some (lexed c (lex_tok (in_view m c)))"
proof (cases "in_view m c")
  case Nil
  with assms have "len c = 0" by (simp add: view_Nil_iff)
  moreover from this have "mk (start c) 0 = c" using mk_eta [of c] by simp
  ultimately show ?thesis using Nil by (simp add: token_done)
next
  case (Cons b bs)
  with assms have c: "len c \<noteq> 0" "peek m c = Some b"
    by (simp_all add: peek_Cons)
  consider "b = chr CHR ''i''" | "isdigit b" | "b \<in> chr ` set ''dle''" | "b \<notin> chr ` set ''idle''" "\<not> isdigit b"
    by auto
  then show ?thesis
  proof cases
    case 1
    with assms Cons show ?thesis by (intro token_int_lex) simp_all
  next
    case 2
    with assms Cons show ?thesis by (intro token_str_lex) simp_all
  next
    case 3
    with c Cons show ?thesis by (auto simp: token_dict token_list token_end adv_mk)
  next
    case 4
    with c Cons show ?thesis by (auto simp: token_byte [OF c] mk_eta)
  qed
qed

end

end
