(* ===== verification/Benr.thy ===== *)
theory Benr
  imports Tokenizer
begin

text \<open>
  The pull reader of \<open>benr.c\<close> / \<open>benr.h\<close>: a cursor over borrowed bytes, the tokenizer
  \<open>benr_next\<close>, the entry point \<open>benr_init\<close>, the list and dictionary iterators, the container
  scan \<open>ctx_adv_container\<close> and the accessors. The union of \<open>struct benr\<close> with its kind is a
  datatype; \<open>*ctx\<close> and the output parameters are passed in and returned. A result \<open>None\<close> is a
  read outside the object.
\<close>

subsection \<open>Data (benr.h)\<close>

record benr_string =
  s_start :: ptr
  s_len :: size_t

record benr_ctx =
  ctx_start :: ptr
  ctx_len :: size_t

record benr_dict =
  d_ctx :: benr_ctx

record benr_list =
  l_ctx :: benr_ctx

datatype benr =
    BENR_NONE
  | BENR_STRING benr_string
  | BENR_INT u64 \<comment> \<open>\<open>intmax_t\<close>, read with \<open>sint\<close>\<close>
  | BENR_DICT benr_dict
  | BENR_LIST benr_list
  | BENR_UINT u64
  | BENR_X_END
  | BENR_ERR_UNEXPECTED_BYTE ptr
  | BENR_ERR_UNEXPECTED_EOF
  | BENR_ERR_UNEXPECTED_BYTE_IN_INT ptr
  | BENR_ERR_UNEXPECTED_EOF_IN_INT
  | BENR_ERR_STRING_TOO_LONG u64
  | BENR_ERR_KEY_IS_NOT_STRING

text \<open>The values of \<open>enum benr_kind\<close>.\<close>

fun benr_kind :: "benr \<Rightarrow> int" where
  "benr_kind BENR_NONE = 0"
| "benr_kind (BENR_STRING _) = 1"
| "benr_kind (BENR_INT _) = 2"
| "benr_kind (BENR_DICT _) = 3"
| "benr_kind (BENR_LIST _) = 4"
| "benr_kind (BENR_UINT _) = 5"
| "benr_kind BENR_X_END = 6"
| "benr_kind (BENR_ERR_UNEXPECTED_BYTE _) = 7"
| "benr_kind BENR_ERR_UNEXPECTED_EOF = 8"
| "benr_kind (BENR_ERR_UNEXPECTED_BYTE_IN_INT _) = 9"
| "benr_kind BENR_ERR_UNEXPECTED_EOF_IN_INT = 10"
| "benr_kind (BENR_ERR_STRING_TOO_LONG _) = 11"
| "benr_kind BENR_ERR_KEY_IS_NOT_STRING = 12"

definition BENR_ERR_FIRST :: int where
  "BENR_ERR_FIRST = 7"

definition BENR_INIT_NONE :: benr where
  "BENR_INIT_NONE = BENR_NONE"

record benr_dict_iter =
  di_ctx :: benr_ctx

record benr_list_iter =
  li_ctx :: benr_ctx

definition benr_is_error :: "benr \<Rightarrow> bool" where
  "benr_is_error b \<longleftrightarrow> benr_kind b \<ge> BENR_ERR_FIRST"

subsection \<open>The cursor (benr.c)\<close>

definition ctx_peek :: "bytes \<Rightarrow> benr_ctx \<Rightarrow> byte option" where
  "ctx_peek m ctx = load m (ctx_start ctx)"

definition ctx_adv :: "benr_ctx \<Rightarrow> benr_ctx" where
  "ctx_adv ctx = ctx\<lparr>ctx_len := ctx_len ctx - 1, ctx_start := ctx_start ctx + 1\<rparr>"

definition ctx_adv_n :: "benr_ctx \<Rightarrow> size_t \<Rightarrow> benr_ctx" where
  "ctx_adv_n ctx n = ctx\<lparr>ctx_len := ctx_len ctx - n, ctx_start := ctx_start ctx + unat n\<rparr>"

definition ctx_next :: "bytes \<Rightarrow> benr_ctx \<Rightarrow> (byte \<times> benr_ctx) option" where
  "ctx_next m ctx = do { b \<leftarrow> ctx_peek m ctx; Some (b, ctx_adv ctx) }"

definition mk_ctx :: "ptr \<Rightarrow> size_t \<Rightarrow> benr_ctx" where
  "mk_ctx p n = \<lparr>ctx_start = p, ctx_len = n\<rparr>"

lemma ctx_next_shorter:
  "ctx_next m c = Some (b, c') \<Longrightarrow> ctx_len c \<noteq> 0 \<Longrightarrow> unat (ctx_len c') < unat (ctx_len c)"
  by (auto simp: ctx_next_def ctx_adv_def mem_simps unat_gt_0 split: bind_splits)

text \<open>The loop of \<open>benr_init_uint\<close>: \<open>v\<close> wraps at 64 bits, as \<open>uintmax_t\<close> does.\<close>

function benr_uint_loop :: "bytes \<Rightarrow> byte \<Rightarrow> u64 \<Rightarrow> benr_ctx \<Rightarrow> benr_ctx uint_scan option" where
  "benr_uint_loop m e v lctx =
     (if ctx_len lctx \<noteq> 0 then
        Option.bind (ctx_next m lctx) (\<lambda>(it, lctx).
          if it = e then Some (Scan_end v lctx)
          else if \<not> isdigit it then Some (Scan_byte (ctx_start lctx - 1))
          else benr_uint_loop m e (v * 10 + (ucast it - 48)) lctx)
      else Some Scan_eof)"
  by pat_completeness auto
termination
  by (relation "measure (\<lambda>(m, e, v, c). unat (ctx_len c))") (auto simp: ctx_next_shorter)

declare benr_uint_loop.simps [simp del]

definition benr_init_uint :: "bytes \<Rightarrow> benr_ctx \<Rightarrow> byte \<Rightarrow> (benr \<times> benr_ctx) option" where
  "benr_init_uint m ctx e = do {
     r \<leftarrow> benr_uint_loop m e 0 ctx;
     Some (case r of
       Scan_end v lctx \<Rightarrow> (BENR_UINT v, lctx)
     | Scan_byte loc \<Rightarrow> (BENR_ERR_UNEXPECTED_BYTE_IN_INT loc, ctx)
     | Scan_eof \<Rightarrow> (BENR_ERR_UNEXPECTED_EOF_IN_INT, ctx))
   }"

definition benr_next :: "bytes \<Rightarrow> benr_ctx \<Rightarrow> (benr \<times> benr_ctx) option" where
  "benr_next m ctx =
     (let lctx = ctx in
      if ctx_len lctx = 0 then Some (BENR_NONE, ctx)
      else do {
        c \<leftarrow> ctx_peek m lctx;
        if c = chr CHR ''i'' then
          (let lctx = ctx_adv lctx in
           if ctx_len lctx = 0 then Some (BENR_ERR_UNEXPECTED_EOF, ctx)
           else do {
             d \<leftarrow> ctx_peek m lctx;
             (sign, lctx) \<leftarrow> Some (if d = chr CHR ''-'' then (- 1, ctx_adv lctx) else (1, lctx));
             (b, lctx) \<leftarrow> benr_init_uint m lctx (chr CHR ''e'');
             case b of
               BENR_UINT u \<Rightarrow> Some (BENR_INT (u * sign), lctx)
             | _ \<Rightarrow> Some (b, ctx)
           })
        else if c = chr CHR ''d'' then
          (let lctx = ctx_adv lctx in
           Some (BENR_DICT \<lparr>d_ctx = \<lparr>ctx_start = ctx_start lctx, ctx_len = ctx_len lctx\<rparr>\<rparr>, lctx))
        else if c = chr CHR ''l'' then
          (let lctx = ctx_adv lctx in
           Some (BENR_LIST \<lparr>l_ctx = \<lparr>ctx_start = ctx_start lctx, ctx_len = ctx_len lctx\<rparr>\<rparr>, lctx))
        else if c = chr CHR ''e'' then
          (let lctx = ctx_adv lctx in Some (BENR_X_END, lctx))
        else if \<not> isdigit c then Some (BENR_ERR_UNEXPECTED_BYTE (ctx_start lctx), ctx)
        else do {
          (b_len, lctx) \<leftarrow> benr_init_uint m lctx (chr CHR '':'');
          case b_len of
            BENR_UINT u \<Rightarrow>
              if u > - 1 \<or> u > ctx_len lctx \<comment> \<open>\<open>SIZE_MAX\<close> is the greatest word\<close>
              then Some (BENR_ERR_STRING_TOO_LONG u, ctx)
              else (let s = \<lparr>s_start = ctx_start lctx, s_len = u\<rparr>;
                        lctx = ctx_adv_n lctx (s_len s) in
                    Some (BENR_STRING s, lctx))
          | _ \<Rightarrow> Some (b_len, ctx)
        }
      })"

definition benr_init :: "bytes \<Rightarrow> ptr \<Rightarrow> size_t \<Rightarrow> benr option" where
  "benr_init m data data_bytes = do {
     (b, lctx) \<leftarrow> benr_next m \<lparr>ctx_start = data, ctx_len = data_bytes\<rparr>;
     Some (if b = BENR_X_END then BENR_ERR_UNEXPECTED_BYTE data else b)
   }"

subsection \<open>Iterators and accessors (benr.c)\<close>

definition benr_dict_iter_of :: "benr_dict \<Rightarrow> benr_dict_iter" where
  "benr_dict_iter_of l = \<lparr>di_ctx = d_ctx l\<rparr>"

definition benr_list_iter_of :: "benr_list \<Rightarrow> benr_list_iter" where
  "benr_list_iter_of l = \<lparr>li_ctx = l_ctx l\<rparr>"

fun benr_kind_is_container :: "benr \<Rightarrow> bool" where
  "benr_kind_is_container (BENR_DICT _) = True"
| "benr_kind_is_container (BENR_LIST _) = True"
| "benr_kind_is_container _ = False"

text \<open>Every token but an error or the end of the data shortens the cursor, so the loop below ends.\<close>

lemma benr_uint_loop_shorter:
  "benr_uint_loop m e v c = Some (Scan_end w c') \<Longrightarrow> unat (ctx_len c') < unat (ctx_len c)"
proof (induction m e v c arbitrary: w c' rule: benr_uint_loop.induct)
  case (1 m e v c)
  then show ?case
    by (subst (asm) (2) benr_uint_loop.simps)
       (fastforce split: if_splits bind_splits dest: ctx_next_shorter)
qed

definition benr_stuck :: "benr \<Rightarrow> bool" where
  "benr_stuck b \<longleftrightarrow> b = BENR_NONE \<or> benr_is_error b"

lemma benr_stuck_simps [simp]:
  "benr_stuck BENR_NONE" "\<not> benr_stuck (BENR_STRING s)" "\<not> benr_stuck (BENR_INT i)"
  "\<not> benr_stuck (BENR_DICT d)" "\<not> benr_stuck (BENR_LIST l)" "\<not> benr_stuck BENR_X_END"
  "benr_stuck (BENR_ERR_UNEXPECTED_BYTE p)" "benr_stuck BENR_ERR_UNEXPECTED_EOF"
  "benr_stuck (BENR_ERR_UNEXPECTED_BYTE_IN_INT p)" "benr_stuck BENR_ERR_UNEXPECTED_EOF_IN_INT"
  "benr_stuck (BENR_ERR_STRING_TOO_LONG u)" "benr_stuck BENR_ERR_KEY_IS_NOT_STRING"
  by (simp_all add: benr_stuck_def benr_is_error_def BENR_ERR_FIRST_def)

lemma benr_init_uint_cases:
  assumes "benr_init_uint m c e = Some (b, c')"
  obtains u where "b = BENR_UINT u" "unat (ctx_len c') < unat (ctx_len c)"
  | p where "b = BENR_ERR_UNEXPECTED_BYTE_IN_INT p"
  | "b = BENR_ERR_UNEXPECTED_EOF_IN_INT"
  using assms
  by (auto simp: benr_init_uint_def dest: benr_uint_loop_shorter split: bind_splits uint_scan.splits)

lemma ctx_adv_shorter: "ctx_len c \<noteq> 0 \<Longrightarrow> unat (ctx_len (ctx_adv c)) < unat (ctx_len c)"
  by (simp add: ctx_adv_def mem_simps unat_gt_0)

lemma ctx_adv_n_shorter: "n \<le> ctx_len c \<Longrightarrow> unat (ctx_len (ctx_adv_n c n)) \<le> unat (ctx_len c)"
  by (simp add: ctx_adv_n_def mem_simps)

lemma benr_next_shorter:
  assumes "benr_next m c = Some (b, c')" "\<not> benr_stuck b"
  shows "unat (ctx_len c') < unat (ctx_len c)"
  using assms ctx_adv_shorter [of c] ctx_adv_shorter [of "ctx_adv c"]
  by (fastforce simp: benr_next_def Let_def not_less dest: ctx_adv_n_shorter
      elim!: benr_init_uint_cases split: if_splits bind_splits)

text \<open>The loop of \<open>ctx_adv_container\<close>: \<open>Inl\<close> the negated kind it returns early with, \<open>Inr\<close> the
  cursor after the matching end marker.\<close>

function adv_container_loop :: "bytes \<Rightarrow> u64 \<Rightarrow> benr_ctx \<Rightarrow> (int + benr_ctx) option" where
  "adv_container_loop m depth lctx =
     (if depth \<noteq> 0 then
        Option.bind (benr_next m lctx) (\<lambda>(b, lctx).
          if benr_kind_is_container b then adv_container_loop m (depth + 1) lctx
          else if b = BENR_X_END then adv_container_loop m (depth - 1) lctx
          else if benr_is_error b then Some (Inl (- benr_kind b))
          else if b = BENR_NONE then Some (Inl (- benr_kind BENR_ERR_UNEXPECTED_EOF))
          else adv_container_loop m depth lctx)
      else Some (Inr lctx))"
  by pat_completeness auto
termination
proof (relation "measure (\<lambda>(m, d, c). unat (ctx_len c))", goal_cases)
  case (2 m depth lctx x b c')
  then show ?case
    using benr_next_shorter [of m lctx b c'] by (cases b) auto
qed (auto simp: benr_stuck_def benr_is_error_def BENR_ERR_FIRST_def dest!: benr_next_shorter)

declare adv_container_loop.simps [simp del]

definition ctx_adv_container :: "bytes \<Rightarrow> benr_ctx \<Rightarrow> (int \<times> benr_ctx) option" where
  "ctx_adv_container m ctx = do {
     r \<leftarrow> adv_container_loop m 1 ctx;
     Some (case r of Inl e \<Rightarrow> (e, ctx) | Inr lctx \<Rightarrow> (0, lctx))
   }"

text \<open>The iterators return the status, the advanced iterator and the output parameters, which keep
  their old values unless the call returns 0.\<close>

definition benr_list_iter_next ::
  "bytes \<Rightarrow> benr_list_iter \<Rightarrow> benr \<Rightarrow> (int \<times> benr_list_iter \<times> benr) option" where
  "benr_list_iter_next m l b = do {
     (x, ctx) \<leftarrow> benr_next m (li_ctx l);
     let l = l\<lparr>li_ctx := ctx\<rparr>;
     if x = BENR_X_END then Some (- 1, l\<lparr>li_ctx := (li_ctx l)\<lparr>ctx_len := 0\<rparr>\<rparr>, b)
     else if benr_kind_is_container x then do {
       (r, ctx) \<leftarrow> ctx_adv_container m (li_ctx l);
       let l = l\<lparr>li_ctx := ctx\<rparr>;
       Some (if r < 0 then (r, l, b) else (0, l, x))
     }
     else Some (0, l, x)
   }"

definition benr_dict_iter_next ::
  "bytes \<Rightarrow> benr_dict_iter \<Rightarrow> benr \<Rightarrow> benr \<Rightarrow> (int \<times> benr_dict_iter \<times> benr \<times> benr) option" where
  "benr_dict_iter_next m l key val = do {
     (k, ctx) \<leftarrow> benr_next m (di_ctx l);
     let l = l\<lparr>di_ctx := ctx\<rparr>;
     if k = BENR_X_END then Some (- 1, l\<lparr>di_ctx := (di_ctx l)\<lparr>ctx_len := 0\<rparr>\<rparr>, key, val)
     else do {
       (v, ctx) \<leftarrow> benr_next m (di_ctx l);
       let l = l\<lparr>di_ctx := ctx\<rparr>;
       if v = BENR_X_END then Some (- 1, l\<lparr>di_ctx := (di_ctx l)\<lparr>ctx_len := 0\<rparr>\<rparr>, key, val)
       else if benr_kind_is_container v then do {
         (r, ctx) \<leftarrow> ctx_adv_container m (di_ctx l);
         let l = l\<lparr>di_ctx := ctx\<rparr>;
         Some (if r < 0 then (r, l, key, val) else (0, l, k, v))
       }
       else Some (0, l, k, v)
     }
   }"

text \<open>The accessors: the status and the output parameter, unchanged on failure.\<close>

definition benr_as_string :: "benr \<Rightarrow> benr_string \<Rightarrow> int \<times> benr_string" where
  "benr_as_string b s = (case b of BENR_STRING x \<Rightarrow> (0, x) | _ \<Rightarrow> (- 1, s))"

definition benr_as_int :: "benr \<Rightarrow> u64 \<Rightarrow> int \<times> u64" where
  "benr_as_int b s = (case b of BENR_INT x \<Rightarrow> (0, x) | _ \<Rightarrow> (- 1, s))"

definition benr_as_dict :: "benr \<Rightarrow> benr_dict \<Rightarrow> int \<times> benr_dict" where
  "benr_as_dict b s = (case b of BENR_DICT x \<Rightarrow> (0, x) | _ \<Rightarrow> (- 1, s))"

definition benr_as_list :: "benr \<Rightarrow> benr_list \<Rightarrow> int \<times> benr_list" where
  "benr_as_list b s = (case b of BENR_LIST x \<Rightarrow> (0, x) | _ \<Rightarrow> (- 1, s))"

subsection \<open>The cursor keeps the contract; the tokenizer refines the reference lexer\<close>

interpretation benr_scan: uint_scanner ctx_start ctx_len mk_ctx ctx_peek ctx_adv ctx_adv_n ctx_next
    benr_uint_loop
proof unfold_locales
  show "benr_uint_loop m e v c =
     (if ctx_len c \<noteq> 0 then
        Option.bind (ctx_next m c) (\<lambda>(it, c').
          if it = e then Some (Scan_end v c')
          else if \<not> isdigit it then Some (Scan_byte (ctx_start c' - 1))
          else benr_uint_loop m e (v * 10 + (ucast it - 48)) c')
      else Some Scan_eof)" for m e v c
    by (subst benr_uint_loop.simps) (rule refl)
qed (simp_all add: mk_ctx_def ctx_peek_def ctx_adv_def ctx_adv_n_def ctx_next_def)

lemmas benr_cursor_simps =
  benr_scan.start_mk benr_scan.len_mk benr_scan.adv_mk benr_scan.adv_n_mk

abbreviation in_ctx :: "bytes \<Rightarrow> benr_ctx \<Rightarrow> bool" where
  "in_ctx m c \<equiv> inside m (ctx_start c) (unat (ctx_len c))"

abbreviation ctx_view :: "bytes \<Rightarrow> benr_ctx \<Rightarrow> bytes" where
  "ctx_view m c \<equiv> view m (ctx_start c) (unat (ctx_len c))"

text \<open>The \<open>struct benr\<close> a token of \<open>k\<close> bytes at \<open>p\<close>, with \<open>n\<close> bytes in view, becomes.\<close>

fun tok_benr :: "ptr \<Rightarrow> size_t \<Rightarrow> tok \<Rightarrow> nat \<Rightarrow> benr" where
  "tok_benr p n Tok_none k = BENR_NONE"
| "tok_benr p n (Tok_int u) k = BENR_INT u"
| "tok_benr p n (Tok_str s) k = BENR_STRING \<lparr>s_start = p + k - length s, s_len = of_nat (length s)\<rparr>"
| "tok_benr p n Tok_dict k = BENR_DICT \<lparr>d_ctx = mk_ctx (p + 1) (n - 1)\<rparr>"
| "tok_benr p n Tok_list k = BENR_LIST \<lparr>l_ctx = mk_ctx (p + 1) (n - 1)\<rparr>"
| "tok_benr p n Tok_end k = BENR_X_END"
| "tok_benr p n Tok_byte k = BENR_ERR_UNEXPECTED_BYTE p"
| "tok_benr p n Tok_eof k = BENR_ERR_UNEXPECTED_EOF"
| "tok_benr p n (Tok_int_byte j) k = BENR_ERR_UNEXPECTED_BYTE_IN_INT (p + j)"
| "tok_benr p n Tok_int_eof k = BENR_ERR_UNEXPECTED_EOF_IN_INT"
| "tok_benr p n (Tok_long u) k = BENR_ERR_STRING_TOO_LONG u"

definition lex_benr :: "ptr \<Rightarrow> size_t \<Rightarrow> tok \<times> nat \<Rightarrow> benr \<times> benr_ctx" where
  "lex_benr p n t = (tok_benr p n (fst t) (snd t), mk_ctx (p + snd t) (n - of_nat (snd t)))"

interpretation benr_tok: tokenizer ctx_start ctx_len mk_ctx ctx_peek ctx_adv ctx_adv_n ctx_next
    benr_uint_loop tok_benr benr_next
proof unfold_locales
  fix c m d r
  assume asm: "ctx_len c \<noteq> 0" "ctx_peek m c = Some (chr CHR ''i'')" "ctx_len (ctx_adv c) \<noteq> 0"
      "ctx_peek m (ctx_adv c) = Some d"
    and r: "benr_uint_loop m (chr CHR ''e'') 0 (if d = chr CHR ''-'' then ctx_adv (ctx_adv c) else ctx_adv c)
      = Some r"
  have "ctx_start c \<le> p" if "r = Scan_byte p" for p
    using benr_scan.scan_later [OF r] that by (auto simp: ctx_adv_def split: if_splits)
  with asm r show "benr_next m c = Some (case r of
          Scan_end v c' \<Rightarrow> (tok_benr (ctx_start c) (ctx_len c)
            (Tok_int (v * (if d = chr CHR ''-'' then - 1 else 1))) (ctx_start c' - ctx_start c), c')
        | Scan_byte p \<Rightarrow> (tok_benr (ctx_start c) (ctx_len c) (Tok_int_byte (p - ctx_start c)) 0, c)
        | Scan_eof \<Rightarrow> (tok_benr (ctx_start c) (ctx_len c) Tok_int_eof 0, c))"
    by (cases r) (auto simp: benr_next_def benr_init_uint_def Let_def)
next
  fix c m b r
  assume asm: "ctx_len c \<noteq> 0" "ctx_peek m c = Some b" "b \<notin> chr ` set ''idle''" "isdigit b"
    and r: "benr_uint_loop m (chr CHR '':'') 0 c = Some r"
    and in': "\<And>v c'. r = Scan_end v c' \<Longrightarrow> v \<le> ctx_len c' \<Longrightarrow> in_ctx m c'"
  have "ctx_start c \<le> p" if "r = Scan_byte p" for p
    using benr_scan.scan_later [OF r] that by simp
  moreover have "length (view m (ctx_start c') (unat v)) = unat v \<and> ctx_start c \<le> ctx_start c'"
    if "r = Scan_end v c'" "v \<le> ctx_len c'" for v c'
    using in' [OF that] that benr_scan.scan_later [OF r]
    by (simp add: inside_def word_le_nat_alt length_view)
  ultimately show "benr_next m c = Some (case r of
          Scan_end v c' \<Rightarrow>
            if ctx_len c' < v then (tok_benr (ctx_start c) (ctx_len c) (Tok_long v) 0, c)
            else (tok_benr (ctx_start c) (ctx_len c) (Tok_str (view m (ctx_start c') (unat v)))
                    (ctx_start c' + unat v - ctx_start c), ctx_adv_n c' v)
        | Scan_byte p \<Rightarrow> (tok_benr (ctx_start c) (ctx_len c) (Tok_int_byte (p - ctx_start c)) 0, c)
        | Scan_eof \<Rightarrow> (tok_benr (ctx_start c) (ctx_len c) Tok_int_eof 0, c))"
    using asm r by (cases r) (auto simp: benr_next_def benr_init_uint_def Let_def not_less)
qed (auto simp: benr_next_def mk_ctx_def ctx_adv_def)

theorem benr_next_lex:
  assumes "in_ctx m c"
  shows "benr_next m c = Some (lex_benr (ctx_start c) (ctx_len c) (lex_tok (ctx_view m c)))"
  using benr_tok.token_lex [OF assms] by (simp add: lex_benr_def)

end
