(* ===== verification/Benr_Reading.thy ===== *)
theory Benr_Reading
  imports Benr
begin

text \<open>
  What the operations of \<open>benr.c\<close> guarantee: they never read outside the object they were given
  and keep every pointer inside it; on encoded data \<open>benr_next\<close>, the container scan and the
  iterators deliver exactly the encoded values.
\<close>

subsection \<open>Memory safety\<close>

definition ctx_end :: "benr_ctx \<Rightarrow> ptr" where
  "ctx_end c = ctx_start c + unat (ctx_len c)"

definition advance :: "benr_ctx \<Rightarrow> nat \<Rightarrow> benr_ctx" where
  "advance c k = mk_ctx (ctx_start c + k) (ctx_len c - of_nat k)"

text \<open>Every pointer of a \<open>struct benr\<close> lies in the object, with the bytes it claims.\<close>

fun benr_inside :: "bytes \<Rightarrow> benr \<Rightarrow> bool" where
  "benr_inside m (BENR_STRING s) = inside m (s_start s) (unat (s_len s))"
| "benr_inside m (BENR_DICT d) = in_ctx m (d_ctx d)"
| "benr_inside m (BENR_LIST l) = in_ctx m (l_ctx l)"
| "benr_inside m (BENR_ERR_UNEXPECTED_BYTE p) = (p < length m)"
| "benr_inside m (BENR_ERR_UNEXPECTED_BYTE_IN_INT p) = (p < length m)"
| "benr_inside m _ = True"

lemma advance_0 [simp]: "advance c 0 = c"
  by (simp add: advance_def mk_ctx_def)

lemma advance_fields:
  "ctx_start (advance c k) = ctx_start c + k" "ctx_len (advance c k) = ctx_len c - of_nat k"
  by (simp_all add: advance_def mk_ctx_def)

lemma advance_advance: "advance (advance c j) k = advance c (j + k)"
  by (simp add: advance_def mk_ctx_def algebra_simps)

lemma advance_in: "in_ctx m c \<Longrightarrow> k \<le> unat (ctx_len c) \<Longrightarrow> in_ctx m (advance c k)"
  by (auto simp: advance_fields mem_simps inside_def)

lemma advance_view: "k \<le> unat (ctx_len c) \<Longrightarrow> ctx_view m (advance c k) = drop k (ctx_view m c)"
  by (simp add: advance_fields mem_simps)

lemma advance_end: "k \<le> unat (ctx_len c) \<Longrightarrow> ctx_end (advance c k) = ctx_end c"
  by (simp add: ctx_end_def advance_fields mem_simps)

lemma lex_benr_advance: "lex_benr (ctx_start c) (ctx_len c) t =
    (tok_benr (ctx_start c) (ctx_len c) (fst t) (snd t), advance c (snd t))"
  by (simp add: lex_benr_def advance_def)

lemma benr_next_tok:
  "in_ctx m c \<Longrightarrow> lex_tok (ctx_view m c) = (t, k) \<Longrightarrow>
     benr_next m c = Some (tok_benr (ctx_start c) (ctx_len c) t k, advance c k)"
  by (simp add: benr_next_lex lex_benr_advance)

lemma lex_tok_in: "in_ctx m c \<Longrightarrow> lex_tok (ctx_view m c) = (t, k) \<Longrightarrow> k \<le> unat (ctx_len c)"
  using lex_le [of "ctx_view m c"] by (simp add: length_view)

lemma lex_int_byte_less:
  "lex_int s off bs = (Tok_int_byte j, k) \<Longrightarrow> j < off + length bs"
  by (auto simp: lex_int_def Let_def dest!: dropWhile_length split: list.splits if_splits)

lemma lex_str_byte_less: "lex_str bs = (Tok_int_byte j, k) \<Longrightarrow> j < length bs"
  by (auto simp: lex_str_def Let_def dest!: dropWhile_length split: list.splits if_splits)

lemma lex_tok_byte_less: "lex_tok bs = (Tok_int_byte j, k) \<Longrightarrow> j < length bs"
  by (cases bs rule: lex_tok.cases)
     (auto dest: lex_int_byte_less lex_str_byte_less split: list.splits if_splits)

lemma lex_tok_nonempty: "lex_tok bs = (t, k) \<Longrightarrow> t \<noteq> Tok_none \<Longrightarrow> bs \<noteq> []"
  by auto

lemma tok_benr_inside:
  assumes c: "in_ctx m c" and t: "lex_tok (ctx_view m c) = (t, k)"
  shows "benr_inside m (tok_benr (ctx_start c) (ctx_len c) t k)"
proof -
  note k = lex_tok_in [OF c t]
  have pos: "ctx_len c \<noteq> 0 \<and> (\<exists>j. unat (ctx_len c) = Suc j)" if "t \<noteq> Tok_none"
    using lex_tok_nonempty [OF t that] c by (auto simp: view_Nil_iff unat_gt_0 gr0_conv_Suc [symmetric])
  show ?thesis
  proof (cases t)
    case (Tok_str s)
    with t have "length s \<le> k" using lex_located by blast
    with c k Tok_str show ?thesis
      by (auto simp: inside_def unat_of_nat_le [of "length s" "ctx_len c"])
  next
    case (Tok_int_byte j)
    with t have "j < unat (ctx_len c)"
      using lex_tok_byte_less [of "ctx_view m c" j k] c by (simp add: length_view)
    with c Tok_int_byte show ?thesis by (simp add: inside_def)
  qed (use c pos in \<open>auto simp: inside_def mk_ctx_def mem_simps\<close>)
qed

text \<open>The tokenizer on a cursor inside the object: defined, and all it hands out is inside.\<close>

lemma benr_next_safe:
  assumes "in_ctx m c"
  obtains b c' where "benr_next m c = Some (b, c')" "in_ctx m c'" "ctx_end c' = ctx_end c" "benr_inside m b"
    "benr_stuck b \<Longrightarrow> c' = c"
proof -
  obtain t k where t: "lex_tok (ctx_view m c) = (t, k)" by fastforce
  have "tok_stuck t \<Longrightarrow> k = 0"
    using lex_stuck [of "ctx_view m c"] t by simp
  then have "benr_stuck (tok_benr (ctx_start c) (ctx_len c) t k) \<Longrightarrow> advance c k = c"
    by (cases t) (simp_all add: tok_stuck_def)
  with that show thesis
    using benr_next_tok [OF assms t] lex_tok_in [OF assms t] tok_benr_inside [OF assms t]
    by (auto simp: advance_in advance_end assms)
qed

fun skip_ok :: "bytes \<Rightarrow> ptr \<Rightarrow> int + benr_ctx \<Rightarrow> bool" where
  "skip_ok m e (Inl r) = (r < 0)"
| "skip_ok m e (Inr c) = (in_ctx m c \<and> ctx_end c = e)"

lemma adv_container_loop_safe:
  "in_ctx m c \<Longrightarrow> \<exists>r. adv_container_loop m d c = Some r \<and> skip_ok m (ctx_end c) r"
proof (induction m d c rule: adv_container_loop.induct)
  case (1 m d c)
  obtain b c' where b: "benr_next m c = Some (b, c')" "in_ctx m c'" "ctx_end c' = ctx_end c"
    using benr_next_safe [OF "1.prems"] by metis
  then show ?case
    using "1.prems" "1.IH" [of "(b, c')" b c']
    by (subst adv_container_loop.simps) (auto simp: benr_is_error_def BENR_ERR_FIRST_def)
qed

lemma ctx_adv_container_safe:
  assumes "in_ctx m c"
  obtains r c' where "ctx_adv_container m c = Some (r, c')" "r \<le> 0" "in_ctx m c'" "ctx_end c' = ctx_end c"
proof -
  obtain r where r: "adv_container_loop m 1 c = Some r" "skip_ok m (ctx_end c) r"
    using adv_container_loop_safe [OF assms] by blast
  with that assms show thesis
    by (cases r) (simp_all add: ctx_adv_container_def)
qed

text \<open>Both iterators, started inside the object, are defined, stay inside it and hand out values
  that are inside; a failed call leaves the output parameters alone.\<close>

lemma benr_list_iter_next_safe:
  assumes "in_ctx m (li_ctx l)"
  obtains r l' b' where "benr_list_iter_next m l b = Some (r, l', b')" "in_ctx m (li_ctx l')"
    "r \<le> 0" "r < 0 \<Longrightarrow> b' = b" "r = 0 \<Longrightarrow> benr_inside m b'"
proof -
  obtain x c where x: "benr_next m (li_ctx l) = Some (x, c)" "in_ctx m c" "benr_inside m x"
    using benr_next_safe [OF assms] by metis
  obtain r c' where r: "ctx_adv_container m c = Some (r, c')" "r \<le> 0" "in_ctx m c'"
    using ctx_adv_container_safe [OF x(2)] by metis
  have "in_ctx m (c\<lparr>ctx_len := 0\<rparr>)"
    using x(2) by (simp add: inside_def)
  with that x r show thesis
    by (cases "x = BENR_X_END"; cases "benr_kind_is_container x"; cases "r < 0")
       (auto simp: benr_list_iter_next_def Let_def)
qed

lemma benr_dict_iter_next_safe:
  assumes "in_ctx m (di_ctx l)"
  obtains r l' k' v' where "benr_dict_iter_next m l k v = Some (r, l', k', v')" "in_ctx m (di_ctx l')"
    "r \<le> 0" "r < 0 \<Longrightarrow> k' = k \<and> v' = v" "r = 0 \<Longrightarrow> benr_inside m k' \<and> benr_inside m v'"
proof -
  obtain x c where x: "benr_next m (di_ctx l) = Some (x, c)" "in_ctx m c" "benr_inside m x"
    using benr_next_safe [OF assms] by metis
  obtain y c' where y: "benr_next m c = Some (y, c')" "in_ctx m c'" "benr_inside m y"
    using benr_next_safe [OF x(2)] by metis
  obtain r c'' where r: "ctx_adv_container m c' = Some (r, c'')" "r \<le> 0" "in_ctx m c''"
    using ctx_adv_container_safe [OF y(2)] by metis
  have "in_ctx m (c\<lparr>ctx_len := 0\<rparr>)" "in_ctx m (c'\<lparr>ctx_len := 0\<rparr>)"
    using x(2) y(2) by (simp_all add: inside_def)
  note zero = this
  note unf = benr_dict_iter_next_def Let_def
  consider "x = BENR_X_END" | "x \<noteq> BENR_X_END" "y = BENR_X_END"
    | "x \<noteq> BENR_X_END" "y \<noteq> BENR_X_END" "benr_kind_is_container y"
    | "x \<noteq> BENR_X_END" "y \<noteq> BENR_X_END" "\<not> benr_kind_is_container y" by blast
  then show thesis
  proof cases
    case 1
    with x zero(1) show ?thesis
      by (intro that [of "- 1" "l\<lparr>di_ctx := c\<lparr>ctx_len := 0\<rparr>\<rparr>" k v]) (simp_all add: unf)
  next
    case 2
    with x y zero(2) show ?thesis
      by (intro that [of "- 1" "l\<lparr>di_ctx := c'\<lparr>ctx_len := 0\<rparr>\<rparr>" k v]) (simp_all add: unf)
  next
    case 3
    with x y r show ?thesis
      by (intro that [of r "l\<lparr>di_ctx := c''\<rparr>" "if r < 0 then k else x" "if r < 0 then v else y"])
         (simp_all add: unf)
  next
    case 4
    with x y show ?thesis
      by (intro that [of 0 "l\<lparr>di_ctx := c'\<rparr>" x y]) (simp_all add: unf)
  qed
qed

subsection \<open>Reading encoded data\<close>

text \<open>The items of a dictionary as they stand in its encoding, and what a \<open>struct benr\<close> that was
  read denotes: a container denotes its items when the bytes it borrows start with them and an
  end marker.\<close>

definition enc_items :: "(bytes \<times> bval) list \<Rightarrow> bytes" where
  "enc_items kvs = concat (map (\<lambda>(k, v). enc_str k @ encode v) kvs)"

definition enc_vals :: "bval list \<Rightarrow> bytes" where
  "enc_vals vs = concat (map encode vs)"

definition starts_with :: "bytes \<Rightarrow> bytes \<Rightarrow> bool" where
  "starts_with bs p \<longleftrightarrow> take (length p) bs = p"

fun denotes :: "bytes \<Rightarrow> benr \<Rightarrow> bval \<Rightarrow> bool" where
  "denotes m (BENR_INT u) (BInt i) = (u = of_int i)"
| "denotes m (BENR_STRING s) (BStr t) =
     (inside m (s_start s) (unat (s_len s)) \<and> view m (s_start s) (unat (s_len s)) = t)"
| "denotes m (BENR_LIST l) (BList vs) =
     (in_ctx m (l_ctx l) \<and> starts_with (ctx_view m (l_ctx l)) (enc_vals vs @ [chr CHR ''e'']))"
| "denotes m (BENR_DICT d) (BDict kvs) =
     (in_ctx m (d_ctx d) \<and> starts_with (ctx_view m (d_ctx d)) (enc_items kvs @ [chr CHR ''e'']))"
| "denotes m _ _ = False"

fun is_container :: "bval \<Rightarrow> bool" where
  "is_container (BList _) = True"
| "is_container (BDict _) = True"
| "is_container _ = False"

lemma enc_items_simps [simp]:
  "enc_items [] = []" "enc_items ((k, v) # kvs) = enc_str k @ encode v @ enc_items kvs"
  by (simp_all add: enc_items_def)

lemma enc_vals_simps [simp]: "enc_vals [] = []" "enc_vals (v # vs) = encode v @ enc_vals vs"
  by (simp_all add: enc_vals_def)

lemma encode_containers:
  "encode (BList vs) = chr CHR ''l'' # enc_vals vs @ [chr CHR ''e'']"
  "encode (BDict kvs) = chr CHR ''d'' # enc_items kvs @ [chr CHR ''e'']"
  by (simp_all add: enc_vals_def enc_items_def)

declare encode.simps(3,4) [simp del]

lemma starts_with_append [simp]: "starts_with (p @ r) p"
  by (simp add: starts_with_def)

lemma starts_with_append3 [simp]: "starts_with (p @ q # r) (p @ [q])"
  by (simp add: starts_with_def)

lemma starts_withE: "starts_with bs p \<Longrightarrow> (\<And>r. bs = p @ r \<Longrightarrow> P) \<Longrightarrow> P"
  by (metis append_take_drop_id starts_with_def)

text \<open>A cursor in front of given bytes, and where reading them leaves it.\<close>

definition at :: "bytes \<Rightarrow> benr_ctx \<Rightarrow> bytes \<Rightarrow> bool" where
  "at m c bs \<longleftrightarrow> in_ctx m c \<and> ctx_view m c = bs"

lemma at_length: "at m c bs \<Longrightarrow> length bs = unat (ctx_len c)"
  by (auto simp: at_def length_view)

lemma at_short: "at m c bs \<Longrightarrow> length bs < 2 ^ 64"
  using at_length [of m c bs] unat_size_t_less [of "ctx_len c"] by simp

lemma at_advance: "at m c (bs @ r) \<Longrightarrow> at m (advance c (length bs)) r"
  using at_length [of m c "bs @ r"] by (auto simp: at_def advance_in advance_view)

lemma at_advance_Cons: "at m c (b # r) \<Longrightarrow> at m (advance c 1) r"
  using at_advance [of m c "[b]" r] by simp

lemma benr_next_at:
  "at m c bs \<Longrightarrow> lex_tok bs = (t, k) \<Longrightarrow>
     benr_next m c = Some (tok_benr (ctx_start c) (ctx_len c) t k, advance c k)"
  by (auto simp: at_def benr_next_tok)

lemma benr_next_end: "at m c (chr CHR ''e'' # r) \<Longrightarrow> benr_next m c = Some (BENR_X_END, advance c 1)"
  by (simp add: benr_next_at)

lemma benr_next_Nil: "at m c [] \<Longrightarrow> benr_next m c = Some (BENR_NONE, c)"
  by (simp add: benr_next_at)

lemma benr_next_str_at:
  assumes "at m c (enc_str s @ r)"
  shows "benr_next m c = Some (BENR_STRING \<lparr>s_start = ctx_start c + length (enc_str s) - length s,
      s_len = of_nat (length s)\<rparr>, advance c (length (enc_str s)))"
proof -
  have "length s < 2 ^ 64" using at_short [OF assms] by (simp add: enc_str_def)
  then show ?thesis using benr_next_at [OF assms lex_enc_str] by simp
qed

lemma str_at_denotes:
  assumes "at m c (enc_str s @ r)"
  shows "denotes m (BENR_STRING \<lparr>s_start = ctx_start c + length (enc_str s) - length s,
      s_len = of_nat (length s)\<rparr>) (BStr s)"
proof -
  let ?k = "length (dec_digits (length s)) + 1"
  have len: "?k + length s + length r = unat (ctx_len c)"
    using at_length [OF assms] by (simp add: enc_str_def)
  then have "length s \<le> unat (ctx_len c)" by simp
  then have s: "unat (of_nat (length s) :: size_t) = length s"
    by (rule unat_of_nat_le)
  have start: "ctx_start c + length (enc_str s) - length s = ctx_start c + ?k"
    by (simp add: enc_str_def)
  have "view m (ctx_start c + ?k) (unat (ctx_len c) - ?k) = s @ r"
    using view_drop [of m "ctx_start c" ?k "unat (ctx_len c)"] assms
    by (simp add: at_def enc_str_def)
  moreover have "length s \<le> unat (ctx_len c) - ?k"
    using len by simp
  ultimately have "view m (ctx_start c + ?k) (length s) = s"
    by (subst view_take [of _ "unat (ctx_len c) - ?k"]) simp_all
  then show ?thesis
    using assms len s start by (auto simp: inside_def at_def)
qed

text \<open>Reading one encoded value: what is read denotes it; the cursor is after the value, or, for a
  container, after its opening marker.\<close>

lemma benr_next_encode:
  assumes "at m c (encode v @ r)"
  obtains b where "benr_next m c = Some (b, advance c (if is_container v then 1 else length (encode v)))"
    "denotes m b v" "benr_kind_is_container b = is_container v" "b \<noteq> BENR_X_END" "\<not> benr_stuck b"
proof (cases v)
  case (BInt i)
  with assms that show thesis
    using benr_next_at [OF assms, of "Tok_int (of_int i)"] lex_enc_int [of i r] by simp
next
  case (BStr s)
  with assms that show thesis
    using benr_next_str_at [of m c s r] str_at_denotes [of m c s r] by simp
next
  case (BList vs)
  with assms have at: "at m c (chr CHR ''l'' # enc_vals vs @ chr CHR ''e'' # r)"
    by (simp add: encode_containers)
  have "denotes m (BENR_LIST \<lparr>l_ctx = advance c 1\<rparr>) v"
    using at_advance_Cons [OF at] BList by (simp add: at_def)
  with that [of "BENR_LIST \<lparr>l_ctx = advance c 1\<rparr>"] BList show thesis
    using benr_next_at [OF at, of Tok_list 1] by (simp add: advance_def)
next
  case (BDict kvs)
  with assms have at: "at m c (chr CHR ''d'' # enc_items kvs @ chr CHR ''e'' # r)"
    by (simp add: encode_containers)
  have "denotes m (BENR_DICT \<lparr>d_ctx = advance c 1\<rparr>) v"
    using at_advance_Cons [OF at] BDict by (simp add: at_def)
  with that [of "BENR_DICT \<lparr>d_ctx = advance c 1\<rparr>"] BDict show thesis
    using benr_next_at [OF at, of Tok_dict 1] by (simp add: advance_def)
qed

text \<open>\<open>skips bs\<close>: the container scan passes over the bytes \<open>bs\<close> without changing its depth. The
  depth is a 64-bit counter, so the bytes must be few enough for it not to wrap.\<close>

definition skips :: "bytes \<Rightarrow> bytes \<Rightarrow> bool" where
  "skips m bs \<longleftrightarrow> (\<forall>c d r. at m c (bs @ r) \<longrightarrow> 0 < unat d \<longrightarrow> unat d + length bs < 2 ^ 64 \<longrightarrow>
     adv_container_loop m d c = adv_container_loop m d (advance c (length bs)))"

lemma skipsD: "skips m bs \<Longrightarrow> at m c (bs @ r) \<Longrightarrow> 0 < unat d \<Longrightarrow> unat d + length bs < 2 ^ 64 \<Longrightarrow>
    adv_container_loop m d c = adv_container_loop m d (advance c (length bs))"
  by (auto simp: skips_def)

lemma skips_Nil [simp]: "skips m []"
  by (simp add: skips_def)

lemma skips_append: "skips m as \<Longrightarrow> skips m bs \<Longrightarrow> skips m (as @ bs)"
proof (unfold skips_def [of m "as @ bs"], intro allI impI)
  fix c d r
  assume as: "skips m as" and bs: "skips m bs" and c: "at m c ((as @ bs) @ r)"
    and d: "0 < unat (d :: u64)" "unat d + length (as @ bs) < 2 ^ 64"
  have "adv_container_loop m d c = adv_container_loop m d (advance c (length as))"
    using skipsD [OF as, of c "bs @ r" d] c d by simp
  also have "\<dots> = adv_container_loop m d (advance (advance c (length as)) (length bs))"
    using skipsD [OF bs at_advance, of c as r d] c d by simp
  finally show "adv_container_loop m d c = adv_container_loop m d (advance c (length (as @ bs)))"
    by (simp add: advance_advance)
qed

text \<open>One round of the loop on a token that is no container marker, and on the markers.\<close>

lemma skip_item:
  assumes "0 < unat d" "benr_next m c = Some (b, c')" "\<not> benr_stuck b" "b \<noteq> BENR_X_END"
    "\<not> benr_kind_is_container b"
  shows "adv_container_loop m d c = adv_container_loop m d c'"
  using assms by (subst adv_container_loop.simps) (auto simp: benr_stuck_def)

lemma skip_open:
  assumes "0 < unat d" "benr_next m c = Some (b, c')" "benr_kind_is_container b"
  shows "adv_container_loop m d c = adv_container_loop m (d + 1) c'"
  using assms by (subst adv_container_loop.simps) auto

lemma skip_close:
  assumes "0 < unat d" "at m c (chr CHR ''e'' # r)"
  shows "adv_container_loop m d c = adv_container_loop m (d - 1) (advance c 1)"
  using assms by (subst adv_container_loop.simps) (auto simp: benr_next_end)

lemma skips_leaf:
  assumes "\<not> is_container v"
  shows "skips m (encode v)"
  unfolding skips_def
proof (intro allI impI)
  fix c d r
  assume "at m c (encode v @ r)" and d: "0 < unat (d :: u64)"
  then obtain b where "benr_next m c = Some (b, advance c (length (encode v)))"
      "\<not> benr_kind_is_container b" "b \<noteq> BENR_X_END" "\<not> benr_stuck b"
    using benr_next_encode [of m c v r] assms by auto
  with d show "adv_container_loop m d c = adv_container_loop m d (advance c (length (encode v)))"
    by (simp add: skip_item)
qed

lemma skips_container:
  assumes v: "encode v = b # body @ [chr CHR ''e'']" "is_container v" and body: "skips m body"
  shows "skips m (encode v)"
  unfolding skips_def
proof (intro allI impI)
  fix c d r
  let ?c1 = "advance c 1" and ?c2 = "advance c (1 + length body)"
  assume c: "at m c (encode v @ r)" and d: "0 < unat (d :: u64)" "unat d + length (encode v) < 2 ^ 64"
  obtain x where x: "benr_next m c = Some (x, ?c1)" "benr_kind_is_container x"
    using benr_next_encode [OF c] v(2) by metis
  from c v have c1: "at m ?c1 (body @ chr CHR ''e'' # r)"
    using at_advance_Cons [of m c b "body @ chr CHR ''e'' # r"] by simp
  then have c2: "at m ?c2 (chr CHR ''e'' # r)"
    using at_advance [OF c1] by (simp add: advance_advance)
  from d v have d1: "unat (d + 1) = unat d + 1"
    by (simp add: unat_word_ariths)
  have "adv_container_loop m d c = adv_container_loop m (d + 1) ?c1"
    using d(1) x by (rule skip_open)
  also have "\<dots> = adv_container_loop m (d + 1) ?c2"
    using skipsD [OF body c1, of "d + 1"] d d1 v by (simp add: advance_advance)
  also have "\<dots> = adv_container_loop m d (advance c (length (encode v)))"
    using skip_close [OF _ c2, of "d + 1"] d1 v by (simp add: advance_advance)
  finally show "adv_container_loop m d c = adv_container_loop m d (advance c (length (encode v)))" .
qed

lemma skips_encode: "skips m (encode v)"
proof (induction v)
  case (BList vs)
  then have "skips m (enc_vals vs)"
    by (induction vs) (auto intro: skips_append)
  then show ?case by (intro skips_container [OF encode_containers(1)]) simp_all
next
  case (BDict kvs)
  then have "\<forall>(k, v) \<in> set kvs. skips m (encode v)" by auto
  then have "skips m (enc_items kvs)"
    using skips_leaf [of "BStr k" m for k] by (induction kvs) (auto intro!: skips_append)
  then show ?case by (intro skips_container [OF encode_containers(2)]) simp_all
qed (simp_all only: skips_leaf is_container.simps not_False_eq_True)

lemma skips_vals: "skips m (enc_vals vs)"
  by (induction vs) (auto intro: skips_append skips_encode)

lemma skips_items: "skips m (enc_items kvs)"
  using skips_leaf [of "BStr k" m for k] by (induction kvs) (auto intro!: skips_append skips_encode)

text \<open>After the opening marker of a container, \<open>ctx_adv_container\<close> moves to the byte after it.\<close>

lemma ctx_adv_container_encode:
  assumes c: "at m c (encode v @ r)" and v: "is_container v" and m: "length m < 2 ^ 64"
  shows "ctx_adv_container m (advance c 1) = Some (0, advance c (length (encode v)))"
proof -
  obtain b body where enc: "encode v = b # body @ [chr CHR ''e'']" and body: "skips m body"
    using v by (cases v) (auto simp: encode_containers skips_vals skips_items)
  let ?c1 = "advance c 1"
  from c enc have c1: "at m ?c1 (body @ chr CHR ''e'' # r)"
    using at_advance_Cons [of m c b "body @ chr CHR ''e'' # r"] by simp
  have small: "1 + length body < 2 ^ 64"
  proof -
    have "length (encode v @ r) \<le> length m"
      using at_length [OF c] c by (simp add: at_def inside_def)
    with m enc show ?thesis by simp
  qed
  have "adv_container_loop m 1 ?c1 = adv_container_loop m 1 (advance c (1 + length body))"
    using skipsD [OF body c1, of 1] small by (simp add: advance_advance)
  also have "\<dots> = adv_container_loop m 0 (advance c (length (encode v)))"
    using skip_close [of 1 m "advance c (1 + length body)" r] at_advance [OF c1] enc
    by (simp add: advance_advance)
  also have "\<dots> = Some (Inr (advance c (length (encode v))))"
    by (subst adv_container_loop.simps) simp
  finally show ?thesis by (simp add: ctx_adv_container_def)
qed

end
