(* ===== verification/Benr_Iter.thy ===== *)
theory Benr_Iter
  imports Benr_Reading
begin

text \<open>
  The iterators of \<open>benr.c\<close> as one interface. The locale \<open>item_iterator\<close> states what a caller of
  \<open>benr_list_iter_next\<close> or \<open>benr_dict_iter_next\<close> relies on; its lemmas say what the usual
  calling loop (call until the status is negative) delivers: exactly the encoded items when the
  container is complete, and no end at all when it is cut short. Both iterators interpret it.
\<close>

subsection \<open>The calling loop\<close>

text \<open>The outputs of the calls that returned 0, once a call returns a negative status; \<open>None\<close>
  when \<open>n\<close> calls did not suffice.\<close>

fun read_all :: "nat \<Rightarrow> ('i \<Rightarrow> 'o \<Rightarrow> (int \<times> 'i \<times> 'o) option) \<Rightarrow> 'i \<Rightarrow> 'o \<Rightarrow> 'o list option" where
  "read_all 0 step i out = None"
| "read_all (Suc n) step i out =
     (case step i out of
        None \<Rightarrow> None
      | Some (r, i', out') \<Rightarrow>
          if r < 0 then Some [] else map_option (\<lambda>xs. out' # xs) (read_all n step i' out'))"

lemma read_all_mono: "read_all n step i out = Some xs \<Longrightarrow> n \<le> k \<Longrightarrow> read_all k step i out = Some xs"
proof (induction n arbitrary: k i out xs)
  case (Suc n)
  from Suc.prems obtain j where j: "k = Suc j" "n \<le> j" by (cases k) auto
  with Suc.prems(1) show ?case
    by (fastforce split: option.splits if_splits dest: Suc.IH [OF _ j(2)])
qed simp

locale item_iterator =
  fixes pos :: "'i \<Rightarrow> benr_ctx"
    and step :: "bytes \<Rightarrow> 'i \<Rightarrow> 'o \<Rightarrow> (int \<times> 'i \<times> 'o) option"
    and enc :: "'x \<Rightarrow> bytes"
    and item :: "bytes \<Rightarrow> 'o \<Rightarrow> 'x \<Rightarrow> bool"
    and nothing :: "'o"
  assumes step_in: "in_ctx m (pos i) \<Longrightarrow>
      \<exists>r i' out'. step m i out = Some (r, i', out') \<and> in_ctx m (pos i') \<and> r \<le> 0 \<and> (r < 0 \<longrightarrow> out' = out)"
    and step_item: "at m (pos i) (enc x @ rest) \<Longrightarrow> length m < 2 ^ 64 \<Longrightarrow>
      \<exists>i' out'. step m i out = Some (0, i', out') \<and> pos i' = advance (pos i) (length (enc x)) \<and> item m out' x"
    and step_end: "at m (pos i) (chr CHR ''e'' # rest) \<Longrightarrow>
      \<exists>i'. step m i out = Some (- 1, i', out) \<and> ctx_len (pos i') = 0"
    and step_empty: "at m (pos i) [] \<Longrightarrow> step m i out = Some (0, i, nothing)"
begin

text \<open>On a complete container the loop ends after one call more than there are items, and its
  outputs are the items.\<close>

lemma read_all_items:
  "at m (pos i) (concat (map enc xs) @ chr CHR ''e'' # rest) \<Longrightarrow> length m < 2 ^ 64 \<Longrightarrow>
     \<exists>outs. read_all (Suc (length xs)) (step m) i out = Some outs \<and> list_all2 (item m) outs xs"
proof (induction xs arbitrary: i out)
  case Nil
  then show ?case using step_end [of m i rest out] by auto
next
  case (Cons x xs)
  from Cons.prems(1) have "at m (pos i) (enc x @ concat (map enc xs) @ chr CHR ''e'' # rest)"
    by simp
  from step_item [OF this Cons.prems(2), of out]
  obtain i' out' where s: "step m i out = Some (0, i', out')" "item m out' x"
      and pos': "pos i' = advance (pos i) (length (enc x))"
    by blast
  have "at m (pos i') (concat (map enc xs) @ chr CHR ''e'' # rest)"
    using Cons.prems(1) pos' at_advance [of m "pos i" "enc x"] by simp
  then obtain outs where "read_all (Suc (length xs)) (step m) i' out' = Some outs"
      "list_all2 (item m) outs xs"
    using Cons.IH Cons.prems(2) by blast
  with s show ?case by (auto simp del: read_all.simps(2) simp: read_all.simps(2) [of "Suc (length xs)"])
qed

text \<open>Where the data ends before the end marker, every further call returns 0 with no item: the
  loop has no end, however many calls are made.\<close>

lemma read_all_empty: "at m (pos i) [] \<Longrightarrow> read_all n (step m) i out = None"
  by (induction n arbitrary: out) (simp_all add: step_empty)

lemma read_all_truncated:
  "at m (pos i) (concat (map enc xs)) \<Longrightarrow> length m < 2 ^ 64 \<Longrightarrow> read_all n (step m) i out = None"
proof (induction xs arbitrary: n i out)
  case Nil
  then show ?case by (simp add: read_all_empty)
next
  case (Cons x xs)
  from Cons.prems(1) have "at m (pos i) (enc x @ concat (map enc xs))"
    by simp
  from step_item [OF this Cons.prems(2), of out]
  obtain i' out' where s: "step m i out = Some (0, i', out')"
      and pos': "pos i' = advance (pos i) (length (enc x))"
    by blast
  have "at m (pos i') (concat (map enc xs))"
    using Cons.prems(1) pos' at_advance [of m "pos i" "enc x"] by simp
  then have "read_all k (step m) i' out' = None" for k
    using Cons.IH Cons.prems(2) by blast
  with s show ?case by (cases n) auto
qed

text \<open>A call at the end of a container that was read is no longer told apart from one on empty
  data: the end is reported once.\<close>

lemma end_reported_once:
  assumes "at m (pos i) (chr CHR ''e'' # rest)"
  shows "\<exists>i'. step m i out = Some (- 1, i', out) \<and> step m i' out = Some (0, i', nothing)"
proof -
  obtain i' where i': "step m i out = Some (- 1, i', out)" "ctx_len (pos i') = 0"
    using step_end [OF assms] by blast
  have "in_ctx m (pos i')"
    using step_in [of m i out] assms i'(1) by (auto simp: at_def)
  with i'(2) have "at m (pos i') []"
    by (simp add: at_def view_def)
  with i'(1) show ?thesis using step_empty by blast
qed

end

subsection \<open>The list iterator\<close>

interpretation list_iterator: item_iterator "li_ctx :: benr_list_iter \<Rightarrow> benr_ctx"
    benr_list_iter_next encode denotes BENR_NONE
proof
  fix m and i :: benr_list_iter and out :: benr
  show "in_ctx m (li_ctx i) \<Longrightarrow> \<exists>r i' out'. benr_list_iter_next m i out = Some (r, i', out') \<and>
      in_ctx m (li_ctx i') \<and> r \<le> 0 \<and> (r < 0 \<longrightarrow> out' = out)"
    by (rule benr_list_iter_next_safe [of m i out]) auto
next
  fix m and i :: benr_list_iter and out :: benr and x rest
  assume a: "at m (li_ctx i) (encode x @ rest)" and m: "length m < 2 ^ 64"
  obtain b where b: "benr_next m (li_ctx i) =
        Some (b, advance (li_ctx i) (if is_container x then 1 else length (encode x)))"
      "denotes m b x" "benr_kind_is_container b = is_container x" "b \<noteq> BENR_X_END"
    using benr_next_encode [OF a] by metis
  then show "\<exists>i' out'. benr_list_iter_next m i out = Some (0, i', out') \<and>
      li_ctx i' = advance (li_ctx i) (length (encode x)) \<and> denotes m out' x"
    using ctx_adv_container_encode [OF a _ m]
    by (cases "is_container x") (simp_all add: benr_list_iter_next_def Let_def)
next
  fix m and i :: benr_list_iter and out :: benr and rest
  assume "at m (li_ctx i) (chr CHR ''e'' # rest)"
  then show "\<exists>i'. benr_list_iter_next m i out = Some (- 1, i', out) \<and> ctx_len (li_ctx i') = 0"
    by (simp add: benr_list_iter_next_def benr_next_end Let_def)
next
  fix m and i :: benr_list_iter and out :: benr
  assume "at m (li_ctx i) []"
  then show "benr_list_iter_next m i out = Some (0, i, BENR_NONE)"
    by (simp add: benr_list_iter_next_def benr_next_Nil Let_def)
qed

subsection \<open>The dictionary iterator\<close>

text \<open>Key and value are one output; an item is a key string and a value.\<close>

definition dict_step :: "bytes \<Rightarrow> benr_dict_iter \<Rightarrow> benr \<times> benr \<Rightarrow>
    (int \<times> benr_dict_iter \<times> benr \<times> benr) option" where
  "dict_step m l kv = benr_dict_iter_next m l (fst kv) (snd kv)"

definition enc_item :: "bytes \<times> bval \<Rightarrow> bytes" where
  "enc_item kv = enc_str (fst kv) @ encode (snd kv)"

definition denotes_item :: "bytes \<Rightarrow> benr \<times> benr \<Rightarrow> bytes \<times> bval \<Rightarrow> bool" where
  "denotes_item m out kv \<longleftrightarrow> denotes m (fst out) (BStr (fst kv)) \<and> denotes m (snd out) (snd kv)"

lemma enc_items_concat: "concat (map enc_item kvs) = enc_items kvs"
  by (induction kvs) (auto simp: enc_item_def)

lemma enc_vals_concat: "concat (map encode vs) = enc_vals vs"
  by (simp add: enc_vals_def)

interpretation dict_iterator: item_iterator "di_ctx :: benr_dict_iter \<Rightarrow> benr_ctx"
    dict_step enc_item denotes_item "(BENR_NONE, BENR_NONE)"
proof
  fix m and i :: benr_dict_iter and out :: "benr \<times> benr"
  show "in_ctx m (di_ctx i) \<Longrightarrow> \<exists>r i' out'. dict_step m i out = Some (r, i', out') \<and>
      in_ctx m (di_ctx i') \<and> r \<le> 0 \<and> (r < 0 \<longrightarrow> out' = out)"
    by (rule benr_dict_iter_next_safe [of m i "fst out" "snd out"]) (auto simp: dict_step_def)
next
  fix m and i :: benr_dict_iter and out :: "benr \<times> benr" and x rest
  assume a: "at m (di_ctx i) (enc_item x @ rest)" and m: "length m < 2 ^ 64"
  obtain k v where x: "x = (k, v)" by (cases x)
  let ?c1 = "advance (di_ctx i) (length (enc_str k))"
  from a x have key: "at m (di_ctx i) (encode (BStr k) @ encode v @ rest)"
    by (simp add: enc_item_def)
  then have val: "at m ?c1 (encode v @ rest)"
    using at_advance [OF key] by simp
  obtain b where b: "benr_next m (di_ctx i) = Some (b, ?c1)" "denotes m b (BStr k)" "b \<noteq> BENR_X_END"
    using benr_next_encode [OF key] by (metis encode.simps(2) is_container.simps(4))
  obtain w where w: "benr_next m ?c1 = Some (w, advance ?c1 (if is_container v then 1 else length (encode v)))"
      "denotes m w v" "benr_kind_is_container w = is_container v" "w \<noteq> BENR_X_END"
    using benr_next_encode [OF val] by metis
  show "\<exists>i' out'. dict_step m i out = Some (0, i', out') \<and>
      di_ctx i' = advance (di_ctx i) (length (enc_item x)) \<and> denotes_item m out' x"
    using b w ctx_adv_container_encode [OF val _ m]
    by (cases "is_container v")
       (simp_all add: dict_step_def benr_dict_iter_next_def Let_def denotes_item_def enc_item_def x
         advance_advance)
next
  fix m and i :: benr_dict_iter and out :: "benr \<times> benr" and rest
  assume "at m (di_ctx i) (chr CHR ''e'' # rest)"
  then show "\<exists>i'. dict_step m i out = Some (- 1, i', out) \<and> ctx_len (di_ctx i') = 0"
    by (simp add: dict_step_def benr_dict_iter_next_def benr_next_end Let_def)
next
  fix m and i :: benr_dict_iter and out :: "benr \<times> benr"
  assume "at m (di_ctx i) []"
  then show "dict_step m i out = Some (0, i, BENR_NONE, BENR_NONE)"
    by (simp add: dict_step_def benr_dict_iter_next_def benr_next_Nil Let_def)
qed

end
