(* ===== verification/Benr_Api.thy ===== *)
theory Benr_Api
  imports Benr_Iter
begin

text \<open>
  What a caller of the \<open>benr.h\<close> interface gets: a walk over a value through the accessors and
  iterators only, as \<open>benr-api-test.c\<close> does it, recovers the encoded value.
\<close>

subsection \<open>A caller's walk\<close>

definition walk_string :: "bytes \<Rightarrow> benr \<Rightarrow> bytes option" where
  "walk_string m b =
     (let (r, s) = benr_as_string b \<lparr>s_start = 0, s_len = 0\<rparr> in
      if r < 0 then None else load_bytes m (s_start s) (unat (s_len s)))"

fun walk :: "nat \<Rightarrow> bytes \<Rightarrow> benr \<Rightarrow> bval option" where
  "walk 0 m b = None"
| "walk (Suc n) m b =
     (let (ri, i) = benr_as_int b 0;
          (rl, l) = benr_as_list b \<lparr>l_ctx = \<lparr>ctx_start = 0, ctx_len = 0\<rparr>\<rparr>;
          (rd, d) = benr_as_dict b \<lparr>d_ctx = \<lparr>ctx_start = 0, ctx_len = 0\<rparr>\<rparr> in
      if ri \<ge> 0 then Some (BInt (sint i))
      else if rl \<ge> 0 then do {
        xs \<leftarrow> read_all n (benr_list_iter_next m) (benr_list_iter_of l) BENR_NONE;
        vs \<leftarrow> those (map (walk n m) xs);
        Some (BList vs)
      }
      else if rd \<ge> 0 then do {
        xs \<leftarrow> read_all n (dict_step m) (benr_dict_iter_of d) (BENR_NONE, BENR_NONE);
        kvs \<leftarrow> those (map (\<lambda>(k, v). do { k \<leftarrow> walk_string m k; v \<leftarrow> walk n m v; Some (k, v) }) xs);
        Some (BDict kvs)
      }
      else map_option BStr (walk_string m b))"

text \<open>Integers the reader can represent: \<open>intmax_t\<close> has 64 bits.\<close>

fun ints_ok :: "bval \<Rightarrow> bool" where
  "ints_ok (BInt i) \<longleftrightarrow> - (2 ^ 63) \<le> i \<and> i < 2 ^ 63"
| "ints_ok (BStr s) \<longleftrightarrow> True"
| "ints_ok (BList vs) \<longleftrightarrow> list_all ints_ok vs"
| "ints_ok (BDict kvs) \<longleftrightarrow> list_all (\<lambda>(k, v). ints_ok v) kvs"

lemma sint_of_int_64: "- (2 ^ 63) \<le> i \<Longrightarrow> i < 2 ^ 63 \<Longrightarrow> sint (of_int i :: u64) = i"
  by (simp add: signed_of_int signed_take_bit_int_eq_self)

lemma those_Some: "list_all2 (\<lambda>x y. f x = Some y) xs ys \<Longrightarrow> those (map f xs) = Some ys"
  by (induction rule: list_all2_induct) auto

lemma list_all2_weaken:
  "list_all2 P xs ys \<Longrightarrow> (\<And>x y. y \<in> set ys \<Longrightarrow> P x y \<Longrightarrow> Q x y) \<Longrightarrow> list_all2 Q xs ys"
  by (simp add: list_all2_conv_all_nth)

lemma length_encode_pos: "Suc 0 \<le> length (encode v)"
  by (cases v) (simp_all add: encode_containers enc_str_def Suc_le_eq)

lemma length_enc_vals: "v \<in> set vs \<Longrightarrow> length (encode v) \<le> length (enc_vals vs)"
  by (induction vs) auto

lemma length_enc_items: "(k, v) \<in> set kvs \<Longrightarrow> length (encode v) \<le> length (enc_items kvs)"
  by (induction kvs) auto

lemma length_le_enc_vals: "length vs \<le> length (enc_vals vs)"
proof (induction vs)
  case (Cons v vs)
  then show ?case using length_encode_pos [of v] by simp
qed simp

lemma length_le_enc_items: "length kvs \<le> length (enc_items kvs)"
proof (induction kvs)
  case (Cons kv kvs)
  then show ?case using length_encode_pos [of "snd kv"] by (cases kv) simp
qed simp

lemma walk_string_denotes: "denotes m b (BStr s) \<Longrightarrow> walk_string m b = Some s"
  by (cases b) (simp_all add: walk_string_def benr_as_string_def load_bytes_def)

text \<open>The walk needs no more rounds than the encoding has bytes.\<close>

lemma walk_denotes:
  "denotes m b v \<Longrightarrow> ints_ok v \<Longrightarrow> length m < 2 ^ 64 \<Longrightarrow> length (encode v) \<le> n \<Longrightarrow> walk n m b = Some v"
proof (induction v arbitrary: b n)
  case (BInt i)
  then obtain k where "n = Suc k" by (cases n) auto
  with BInt show ?case
    by (cases b) (simp_all add: benr_as_int_def benr_as_list_def benr_as_dict_def sint_of_int_64)
next
  case (BStr s)
  then obtain k where "n = Suc k" using length_encode_pos [of "BStr s"] by (cases n) auto
  moreover obtain t where "b = BENR_STRING t" using BStr.prems(1) by (cases b) auto
  ultimately show ?case using walk_string_denotes [OF BStr.prems(1)]
    by (simp add: benr_as_int_def benr_as_list_def benr_as_dict_def)
next
  case (BList vs)
  obtain k where k: "n = Suc k" using length_encode_pos [of "BList vs"] BList.prems(4) by (cases n) auto
  obtain l where b: "b = BENR_LIST l" using BList.prems(1) by (cases b) auto
  obtain r where at: "at m (l_ctx l) (concat (map encode vs) @ chr CHR ''e'' # r)"
    using BList.prems(1) b by (auto simp: at_def enc_vals_concat elim: starts_withE)
  then have "at m (li_ctx (benr_list_iter_of l)) (concat (map encode vs) @ chr CHR ''e'' # r)"
    by (simp add: benr_list_iter_of_def)
  from list_iterator.read_all_items [OF this BList.prems(3), of BENR_NONE]
  obtain outs where some: "read_all (Suc (length vs)) (benr_list_iter_next m) (benr_list_iter_of l) BENR_NONE = Some outs"
      and outs: "list_all2 (denotes m) outs vs"
    by blast
  have "Suc (length vs) \<le> k"
    using BList.prems(4) k length_le_enc_vals [of vs] by (simp add: encode_containers)
  with some have read: "read_all k (benr_list_iter_next m) (benr_list_iter_of l) BENR_NONE = Some outs"
    by (rule read_all_mono)
  have "those (map (walk k m) outs) = Some vs"
  proof (rule those_Some, rule list_all2_weaken [OF outs])
    fix x v assume v: "v \<in> set vs" "denotes m x v"
    then have "length (encode v) \<le> k"
      using length_enc_vals [of v vs] BList.prems(4) k by (simp add: encode_containers)
    with v BList.IH BList.prems(2,3) show "walk k m x = Some v" by (simp add: list_all_iff)
  qed
  with read show ?case
    by (simp add: k b benr_as_int_def benr_as_list_def benr_as_dict_def)
next
  case (BDict kvs)
  obtain k where k: "n = Suc k" using length_encode_pos [of "BDict kvs"] BDict.prems(4) by (cases n) auto
  obtain d where b: "b = BENR_DICT d" using BDict.prems(1) by (cases b) auto
  obtain r where at: "at m (d_ctx d) (concat (map enc_item kvs) @ chr CHR ''e'' # r)"
    using BDict.prems(1) b by (auto simp: at_def enc_items_concat elim: starts_withE)
  then have "at m (di_ctx (benr_dict_iter_of d)) (concat (map enc_item kvs) @ chr CHR ''e'' # r)"
    by (simp add: benr_dict_iter_of_def)
  from dict_iterator.read_all_items [OF this BDict.prems(3), of "(BENR_NONE, BENR_NONE)"]
  obtain outs where some: "read_all (Suc (length kvs)) (dict_step m) (benr_dict_iter_of d) (BENR_NONE, BENR_NONE) = Some outs"
      and outs: "list_all2 (denotes_item m) outs kvs"
    by blast
  have "Suc (length kvs) \<le> k"
    using BDict.prems(4) k length_le_enc_items [of kvs] by (simp add: encode_containers)
  with some have read: "read_all k (dict_step m) (benr_dict_iter_of d) (BENR_NONE, BENR_NONE) = Some outs"
    by (rule read_all_mono)
  have "those (map (\<lambda>(x, y). do { x \<leftarrow> walk_string m x; y \<leftarrow> walk k m y; Some (x, y) }) outs) = Some kvs"
  proof (rule those_Some, rule list_all2_weaken [OF outs])
    fix x kv assume v: "kv \<in> set kvs" "denotes_item m x kv"
    then have "length (encode (snd kv)) \<le> k"
      using length_enc_items [of "fst kv" "snd kv" kvs] BDict.prems(4) k by (simp add: encode_containers)
    moreover have "ints_ok (snd kv)"
      using BDict.prems(2) v(1) by (auto simp: list_all_iff)
    ultimately have "walk k m (snd x) = Some (snd kv)"
      using v BDict.IH [of kv "snd kv" "snd x" k] BDict.prems(3)
      by (simp add: denotes_item_def snds.simps)
    with v(2) walk_string_denotes [of m "fst x" "fst kv"]
    show "(case x of (x, y) \<Rightarrow> do { x \<leftarrow> walk_string m x; y \<leftarrow> walk k m y; Some (x, y) }) = Some kv"
      by (simp add: denotes_item_def split_beta)
  qed
  with read show ?case
    by (simp add: k b benr_as_int_def benr_as_list_def benr_as_dict_def)
qed

text \<open>\<open>benr_init\<close> on the encoding of a value, whatever follows it in the object.\<close>

lemma benr_init_denotes:
  assumes "m = pre @ encode v @ post" "unat n = length (encode v @ post)"
  obtains b where "benr_init m (length pre) n = Some b" "denotes m b v"
proof -
  let ?c = "\<lparr>ctx_start = length pre, ctx_len = n\<rparr>"
  have "at m ?c (encode v @ post)"
    using assms by (simp add: at_def inside_def view_def)
  then obtain b c' where "benr_next m ?c = Some (b, c')" "denotes m b v" "b \<noteq> BENR_X_END"
    by (rule benr_next_encode) blast
  with that show thesis by (simp add: benr_init_def)
qed

end
