(* ===== verification/Benp.thy ===== *)
theory Benp
  imports Tokenizer
begin

text \<open>
  The event parser of \<open>benp.c\<close> / \<open>benp.h\<close>: a context over borrowed bytes and \<open>benp_next\<close>, which
  returns the next event and advances the context. It interprets the interfaces of Cursor and
  Tokenizer, so it computes the reference lexer of Bencode.
\<close>

subsection \<open>Data (benp.h)\<close>

record benp_bytes =
  bb_start :: ptr
  bb_len :: size_t

record benp_ctx =
  bp_data :: benp_bytes

datatype benp_ev =
    BENP_EV_DONE
  | BENP_EV_INTEGER u64 \<comment> \<open>\<open>intmax_t\<close>, read with \<open>sint\<close>\<close>
  | BENP_EV_STRING benp_bytes
  | BENP_EV_LIST_START
  | BENP_EV_DICT_START
  | BENP_EV_X_END
  | BENP_EV_ERROR_UNEXPECTED_EOF
  | BENP_EV_ERROR_UNEXPECTED_BYTE ptr
  | BENP_EV_ERROR_STRING_TOO_LONG size_t
  | BENP_EV_ERROR_UNEXPECTED_BYTE_IN_INT ptr
  | BENP_EV_UINT u64

definition benp_init :: "ptr \<Rightarrow> size_t \<Rightarrow> benp_ctx" where
  "benp_init data data_len = \<lparr>bp_data = \<lparr>bb_start = data, bb_len = data_len\<rparr>\<rparr>"

subsection \<open>The cursor (benp.c)\<close>

abbreviation bp_start :: "benp_ctx \<Rightarrow> ptr" where
  "bp_start ctx \<equiv> bb_start (bp_data ctx)"

abbreviation bp_len :: "benp_ctx \<Rightarrow> size_t" where
  "bp_len ctx \<equiv> bb_len (bp_data ctx)"

definition benp_ctx_peek :: "bytes \<Rightarrow> benp_ctx \<Rightarrow> byte option" where
  "benp_ctx_peek m ctx = load m (bp_start ctx)"

definition benp_ctx_adv :: "benp_ctx \<Rightarrow> benp_ctx" where
  "benp_ctx_adv ctx =
     ctx\<lparr>bp_data := (bp_data ctx)\<lparr>bb_len := bp_len ctx - 1, bb_start := bp_start ctx + 1\<rparr>\<rparr>"

definition benp_ctx_adv_n :: "benp_ctx \<Rightarrow> size_t \<Rightarrow> benp_ctx" where
  "benp_ctx_adv_n ctx n =
     ctx\<lparr>bp_data := (bp_data ctx)\<lparr>bb_len := bp_len ctx - n, bb_start := bp_start ctx + unat n\<rparr>\<rparr>"

definition benp_ctx_next :: "bytes \<Rightarrow> benp_ctx \<Rightarrow> (byte \<times> benp_ctx) option" where
  "benp_ctx_next m ctx = do { b \<leftarrow> benp_ctx_peek m ctx; Some (b, benp_ctx_adv ctx) }"

lemma benp_ctx_next_shorter:
  "benp_ctx_next m c = Some (b, c') \<Longrightarrow> bp_len c \<noteq> 0 \<Longrightarrow> unat (bp_len c') < unat (bp_len c)"
  by (auto simp: benp_ctx_next_def benp_ctx_adv_def mem_simps unat_gt_0 split: bind_splits)

text \<open>The loop of \<open>_benp_next_uint\<close>, and the function around it.\<close>

function benp_uint_loop :: "bytes \<Rightarrow> byte \<Rightarrow> u64 \<Rightarrow> benp_ctx \<Rightarrow> benp_ctx uint_scan option" where
  "benp_uint_loop m e v lctx =
     (if bp_len lctx \<noteq> 0 then
        Option.bind (benp_ctx_next m lctx) (\<lambda>(it, lctx).
          if it = e then Some (Scan_end v lctx)
          else if \<not> isdigit it then Some (Scan_byte (bp_start lctx - 1))
          else benp_uint_loop m e (v * 10 + (ucast it - 48)) lctx)
      else Some Scan_eof)"
  by pat_completeness auto
termination
  by (relation "measure (\<lambda>(m, e, v, c). unat (bp_len c))") (auto simp: benp_ctx_next_shorter)

declare benp_uint_loop.simps [simp del]

definition benp_next_uint :: "bytes \<Rightarrow> benp_ctx \<Rightarrow> byte \<Rightarrow> (benp_ev \<times> benp_ctx) option" where
  "benp_next_uint m ctx e = do {
     r \<leftarrow> benp_uint_loop m e 0 ctx;
     Some (case r of
       Scan_end v lctx \<Rightarrow> (BENP_EV_UINT v, lctx)
     | Scan_byte loc \<Rightarrow> (BENP_EV_ERROR_UNEXPECTED_BYTE_IN_INT loc, ctx)
     | Scan_eof \<Rightarrow> (BENP_EV_ERROR_UNEXPECTED_EOF, ctx))
   }"

definition benp_next :: "bytes \<Rightarrow> benp_ctx \<Rightarrow> (benp_ev \<times> benp_ctx) option" where
  "benp_next m ctx =
     (let lctx = ctx in
      if bp_len lctx \<noteq> 0 then do {
        fst \<leftarrow> benp_ctx_peek m lctx;
        if fst = chr CHR ''i'' then
          (let lctx = benp_ctx_adv lctx in
           if bp_len lctx = 0 then Some (BENP_EV_ERROR_UNEXPECTED_EOF, ctx)
           else do {
             d \<leftarrow> benp_ctx_peek m lctx;
             (sign, lctx) \<leftarrow> Some (if d = chr CHR ''-'' then (- 1, benp_ctx_adv lctx) else (1, lctx));
             (e, lctx) \<leftarrow> benp_next_uint m lctx (chr CHR ''e'');
             case e of
               BENP_EV_UINT u \<Rightarrow> Some (BENP_EV_INTEGER (u * sign), lctx)
             | _ \<Rightarrow> Some (e, ctx)
           })
        else if fst = chr CHR ''l'' then Some (BENP_EV_LIST_START, benp_ctx_adv ctx)
        else if fst = chr CHR ''d'' then Some (BENP_EV_DICT_START, benp_ctx_adv ctx)
        else if fst = chr CHR ''e'' then Some (BENP_EV_X_END, benp_ctx_adv ctx)
        else if isdigit fst then do {
          (e, lctx) \<leftarrow> benp_next_uint m lctx (chr CHR '':'');
          case e of
            BENP_EV_UINT u \<Rightarrow>
              if u > - 1 \<or> u > bp_len lctx \<comment> \<open>\<open>SIZE_MAX\<close> is the greatest word\<close>
              then Some (BENP_EV_ERROR_STRING_TOO_LONG u, ctx)
              else (let s = \<lparr>bb_start = bp_start lctx, bb_len = u\<rparr>;
                        lctx = benp_ctx_adv_n lctx (bb_len s) in
                    Some (BENP_EV_STRING s, lctx))
          | _ \<Rightarrow> Some (e, ctx)
        }
        else Some (BENP_EV_ERROR_UNEXPECTED_BYTE (bp_start lctx), ctx)
      }
      else Some (BENP_EV_DONE, ctx))"

subsection \<open>The contracts\<close>

definition mk_benp :: "ptr \<Rightarrow> size_t \<Rightarrow> benp_ctx" where
  "mk_benp p n = \<lparr>bp_data = \<lparr>bb_start = p, bb_len = n\<rparr>\<rparr>"

fun tok_benp :: "ptr \<Rightarrow> size_t \<Rightarrow> tok \<Rightarrow> nat \<Rightarrow> benp_ev" where
  "tok_benp p n Tok_none k = BENP_EV_DONE"
| "tok_benp p n (Tok_int u) k = BENP_EV_INTEGER u"
| "tok_benp p n (Tok_str s) k = BENP_EV_STRING \<lparr>bb_start = p + k - length s, bb_len = of_nat (length s)\<rparr>"
| "tok_benp p n Tok_dict k = BENP_EV_DICT_START"
| "tok_benp p n Tok_list k = BENP_EV_LIST_START"
| "tok_benp p n Tok_end k = BENP_EV_X_END"
| "tok_benp p n Tok_byte k = BENP_EV_ERROR_UNEXPECTED_BYTE p"
| "tok_benp p n Tok_eof k = BENP_EV_ERROR_UNEXPECTED_EOF"
| "tok_benp p n (Tok_int_byte j) k = BENP_EV_ERROR_UNEXPECTED_BYTE_IN_INT (p + j)"
| "tok_benp p n Tok_int_eof k = BENP_EV_ERROR_UNEXPECTED_EOF"
| "tok_benp p n (Tok_long u) k = BENP_EV_ERROR_STRING_TOO_LONG u"

interpretation benp_scan: uint_scanner bp_start bp_len mk_benp benp_ctx_peek benp_ctx_adv
    benp_ctx_adv_n benp_ctx_next benp_uint_loop
proof unfold_locales
  show "benp_uint_loop m e v c =
     (if bp_len c \<noteq> 0 then
        Option.bind (benp_ctx_next m c) (\<lambda>(it, c').
          if it = e then Some (Scan_end v c')
          else if \<not> isdigit it then Some (Scan_byte (bp_start c' - 1))
          else benp_uint_loop m e (v * 10 + (ucast it - 48)) c')
      else Some Scan_eof)" for m e v c
    by (subst benp_uint_loop.simps) (rule refl)
qed (simp_all add: mk_benp_def benp_ctx_peek_def benp_ctx_adv_def benp_ctx_adv_n_def benp_ctx_next_def)

abbreviation in_benp :: "bytes \<Rightarrow> benp_ctx \<Rightarrow> bool" where
  "in_benp m c \<equiv> inside m (bp_start c) (unat (bp_len c))"

abbreviation benp_view :: "bytes \<Rightarrow> benp_ctx \<Rightarrow> bytes" where
  "benp_view m c \<equiv> view m (bp_start c) (unat (bp_len c))"

interpretation benp_tok: tokenizer bp_start bp_len mk_benp benp_ctx_peek benp_ctx_adv benp_ctx_adv_n benp_ctx_next
    benp_uint_loop tok_benp benp_next
proof unfold_locales
  fix c m d r
  assume asm: "bp_len c \<noteq> 0" "benp_ctx_peek m c = Some (chr CHR ''i'')" "bp_len (benp_ctx_adv c) \<noteq> 0"
      "benp_ctx_peek m (benp_ctx_adv c) = Some d"
    and r: "benp_uint_loop m (chr CHR ''e'') 0 (if d = chr CHR ''-'' then benp_ctx_adv (benp_ctx_adv c) else benp_ctx_adv c)
      = Some r"
  have "bp_start c \<le> p" if "r = Scan_byte p" for p
    using benp_scan.scan_later [OF r] that by (auto simp: benp_ctx_adv_def split: if_splits)
  with asm r show "benp_next m c = Some (case r of
          Scan_end v c' \<Rightarrow> (tok_benp (bp_start c) (bp_len c)
            (Tok_int (v * (if d = chr CHR ''-'' then - 1 else 1))) (bp_start c' - bp_start c), c')
        | Scan_byte p \<Rightarrow> (tok_benp (bp_start c) (bp_len c) (Tok_int_byte (p - bp_start c)) 0, c)
        | Scan_eof \<Rightarrow> (tok_benp (bp_start c) (bp_len c) Tok_int_eof 0, c))"
    by (cases r) (auto simp: benp_next_def benp_next_uint_def Let_def)
next
  fix c m b r
  assume asm: "bp_len c \<noteq> 0" "benp_ctx_peek m c = Some b" "b \<notin> chr ` set ''idle''" "isdigit b"
    and r: "benp_uint_loop m (chr CHR '':'') 0 c = Some r"
    and in': "\<And>v c'. r = Scan_end v c' \<Longrightarrow> v \<le> bp_len c' \<Longrightarrow> in_benp m c'"
  have "bp_start c \<le> p" if "r = Scan_byte p" for p
    using benp_scan.scan_later [OF r] that by simp
  moreover have "length (view m (bp_start c') (unat v)) = unat v \<and> bp_start c \<le> bp_start c'"
    if "r = Scan_end v c'" "v \<le> bp_len c'" for v c'
    using in' [OF that] that benp_scan.scan_later [OF r]
    by (simp add: inside_def word_le_nat_alt length_view)
  ultimately show "benp_next m c = Some (case r of
          Scan_end v c' \<Rightarrow>
            if bp_len c' < v then (tok_benp (bp_start c) (bp_len c) (Tok_long v) 0, c)
            else (tok_benp (bp_start c) (bp_len c) (Tok_str (view m (bp_start c') (unat v)))
                    (bp_start c' + unat v - bp_start c), benp_ctx_adv_n c' v)
        | Scan_byte p \<Rightarrow> (tok_benp (bp_start c) (bp_len c) (Tok_int_byte (p - bp_start c)) 0, c)
        | Scan_eof \<Rightarrow> (tok_benp (bp_start c) (bp_len c) Tok_int_eof 0, c))"
    using asm r by (cases r) (auto simp: benp_next_def benp_next_uint_def Let_def not_less)
qed (auto simp: benp_next_def mk_benp_def benp_ctx_adv_def)

theorem benp_next_lex:
  assumes "in_benp m c"
  shows "benp_next m c = Some (let t = lex_tok (benp_view m c) in
    (tok_benp (bp_start c) (bp_len c) (fst t) (snd t), mk_benp (bp_start c + snd t) (bp_len c - of_nat (snd t))))"
  using benp_tok.token_lex [OF assms] by (simp add: Let_def)

end
