(* ===== verification/Readers.thy ===== *)
theory Readers
  imports Benr_Api Benp
begin

text \<open>
  The two readers side by side: \<open>benp_next\<close> computes what \<open>benr_next\<close> computes, event for value, and
  the event stream of an encoded value is its markers and leaves in order, followed by
  \<open>BENP_EV_DONE\<close> for ever.
\<close>

subsection \<open>The same tokens\<close>

definition benp_of_ctx :: "benr_ctx \<Rightarrow> benp_ctx" where
  "benp_of_ctx c = mk_benp (ctx_start c) (ctx_len c)"

text \<open>The event for a value; \<open>benp.h\<close> has one error for both ends of the data, and none for keys.\<close>

fun benp_of_benr :: "benr \<Rightarrow> benp_ev" where
  "benp_of_benr BENR_NONE = BENP_EV_DONE"
| "benp_of_benr (BENR_STRING s) = BENP_EV_STRING \<lparr>bb_start = s_start s, bb_len = s_len s\<rparr>"
| "benp_of_benr (BENR_INT i) = BENP_EV_INTEGER i"
| "benp_of_benr (BENR_DICT _) = BENP_EV_DICT_START"
| "benp_of_benr (BENR_LIST _) = BENP_EV_LIST_START"
| "benp_of_benr (BENR_UINT u) = BENP_EV_UINT u"
| "benp_of_benr BENR_X_END = BENP_EV_X_END"
| "benp_of_benr (BENR_ERR_UNEXPECTED_BYTE p) = BENP_EV_ERROR_UNEXPECTED_BYTE p"
| "benp_of_benr BENR_ERR_UNEXPECTED_EOF = BENP_EV_ERROR_UNEXPECTED_EOF"
| "benp_of_benr (BENR_ERR_UNEXPECTED_BYTE_IN_INT p) = BENP_EV_ERROR_UNEXPECTED_BYTE_IN_INT p"
| "benp_of_benr BENR_ERR_UNEXPECTED_EOF_IN_INT = BENP_EV_ERROR_UNEXPECTED_EOF"
| "benp_of_benr (BENR_ERR_STRING_TOO_LONG u) = BENP_EV_ERROR_STRING_TOO_LONG u"
| "benp_of_benr BENR_ERR_KEY_IS_NOT_STRING = BENP_EV_ERROR_UNEXPECTED_EOF"

lemma benp_of_ctx_fields [simp]:
  "bp_start (benp_of_ctx c) = ctx_start c" "bp_len (benp_of_ctx c) = ctx_len c"
  by (simp_all add: benp_of_ctx_def mk_benp_def)

lemma benp_of_ctx_cursor [simp]:
  "benp_ctx_peek m (benp_of_ctx c) = ctx_peek m c"
  "benp_ctx_adv (benp_of_ctx c) = benp_of_ctx (ctx_adv c)"
  "benp_ctx_adv_n (benp_of_ctx c) n = benp_of_ctx (ctx_adv_n c n)"
  "benp_ctx_next m (benp_of_ctx c) = map_option (\<lambda>(b, c). (b, benp_of_ctx c)) (ctx_next m c)"
  by (auto simp: benp_ctx_peek_def ctx_peek_def benp_ctx_adv_def ctx_adv_def benp_ctx_adv_n_def
      ctx_adv_n_def benp_ctx_next_def ctx_next_def benp_of_ctx_def mk_benp_def split: bind_split)

lemma benp_uint_loop_benr:
  "benp_uint_loop m e v (benp_of_ctx c) = map_option (map_uint_scan benp_of_ctx) (benr_uint_loop m e v c)"
proof (induction m e v c rule: benr_uint_loop.induct)
  case (1 m e v c)
  show ?case
  proof (cases "ctx_next m c")
    case None
    then show ?thesis
      by (subst benp_uint_loop.simps, subst benr_uint_loop.simps) simp
  next
    case (Some r)
    obtain b c' where r: "r = (b, c')" by (cases r)
    have "ctx_len c \<noteq> 0 \<Longrightarrow> b \<noteq> e \<Longrightarrow> isdigit b \<Longrightarrow>
        benp_uint_loop m e (v * 10 + (ucast b - 48)) (benp_of_ctx c') =
        map_option (map_uint_scan benp_of_ctx) (benr_uint_loop m e (v * 10 + (ucast b - 48)) c')"
      by (rule "1.IH" [of "(b, c')" b c']) (simp_all add: Some r)
    with Some r show ?thesis
      by (subst benp_uint_loop.simps, subst benr_uint_loop.simps) simp
  qed
qed

lemma benp_next_uint_benr:
  "benp_next_uint m (benp_of_ctx c) e =
     map_option (\<lambda>(b, c). (benp_of_benr b, benp_of_ctx c)) (benr_init_uint m c e)"
  by (cases "benr_uint_loop m e 0 c")
     (auto simp: benp_next_uint_def benr_init_uint_def benp_uint_loop_benr split: uint_scan.split)

lemma benp_next_benr:
  "benp_next m (benp_of_ctx c) = map_option (\<lambda>(b, c). (benp_of_benr b, benp_of_ctx c)) (benr_next m c)"
  by (auto simp: benp_next_def benr_next_def Let_def benp_next_uint_benr split: bind_split
      elim!: benr_init_uint_cases)

subsection \<open>The events of an encoded value\<close>

fun toks :: "bval \<Rightarrow> tok list" where
  "toks (BInt i) = [Tok_int (of_int i)]"
| "toks (BStr s) = [Tok_str s]"
| "toks (BList vs) = Tok_list # concat (map toks vs) @ [Tok_end]"
| "toks (BDict kvs) = Tok_dict # concat (map (\<lambda>(k, v). Tok_str k # toks v) kvs) @ [Tok_end]"

text \<open>The first \<open>n\<close> events, and what an event says, with the bytes a string borrows.\<close>

fun benp_events :: "nat \<Rightarrow> bytes \<Rightarrow> benp_ctx \<Rightarrow> benp_ev list option" where
  "benp_events 0 m ctx = Some []"
| "benp_events (Suc n) m ctx = do {
     (e, ctx) \<leftarrow> benp_next m ctx;
     es \<leftarrow> benp_events n m ctx;
     Some (e # es)
   }"

fun ev_tok :: "bytes \<Rightarrow> benp_ev \<Rightarrow> tok" where
  "ev_tok m BENP_EV_DONE = Tok_none"
| "ev_tok m (BENP_EV_INTEGER u) = Tok_int u"
| "ev_tok m (BENP_EV_STRING s) = Tok_str (view m (bb_start s) (unat (bb_len s)))"
| "ev_tok m BENP_EV_LIST_START = Tok_list"
| "ev_tok m BENP_EV_DICT_START = Tok_dict"
| "ev_tok m BENP_EV_X_END = Tok_end"
| "ev_tok m BENP_EV_ERROR_UNEXPECTED_EOF = Tok_eof"
| "ev_tok m (BENP_EV_ERROR_UNEXPECTED_BYTE p) = Tok_byte"
| "ev_tok m (BENP_EV_ERROR_STRING_TOO_LONG u) = Tok_long u"
| "ev_tok m (BENP_EV_ERROR_UNEXPECTED_BYTE_IN_INT p) = Tok_int_byte p"
| "ev_tok m (BENP_EV_UINT u) = Tok_int u"

text \<open>\<open>bs\<close> reads as the tokens \<open>ts\<close>, whatever follows.\<close>

definition lexes :: "bytes \<Rightarrow> tok list \<Rightarrow> bool" where
  "lexes bs ts \<longleftrightarrow> (\<forall>m n c r es. at m c (bs @ r) \<longrightarrow>
     benp_events n m (benp_of_ctx (advance c (length bs))) = Some es \<longrightarrow>
     (\<exists>es'. benp_events (length ts + n) m (benp_of_ctx c) = Some es' \<and>
        map (ev_tok m) es' = ts @ map (ev_tok m) es))"

lemma lexesD: "lexes bs ts \<Longrightarrow> at m c (bs @ r) \<Longrightarrow>
    benp_events n m (benp_of_ctx (advance c (length bs))) = Some es \<Longrightarrow>
    \<exists>es'. benp_events (length ts + n) m (benp_of_ctx c) = Some es' \<and>
       map (ev_tok m) es' = ts @ map (ev_tok m) es"
  unfolding lexes_def by blast

lemma lexes_Nil: "lexes [] []"
  by (simp add: lexes_def)

lemma lexes_append:
  assumes "lexes bs ts" "lexes bs' ts'"
  shows "lexes (bs @ bs') (ts @ ts')"
  unfolding lexes_def
proof (intro allI impI)
  fix m n c r es
  assume a: "at m c ((bs @ bs') @ r)"
    and e: "benp_events n m (benp_of_ctx (advance c (length (bs @ bs')))) = Some es"
  from a have a1: "at m c (bs @ bs' @ r)" by simp
  obtain es1 where es1: "benp_events (length ts' + n) m (benp_of_ctx (advance c (length bs))) = Some es1"
      "map (ev_tok m) es1 = ts' @ map (ev_tok m) es"
    using lexesD [OF assms(2) at_advance [OF a1]] e by (auto simp: advance_advance)
  then show "\<exists>es'. benp_events (length (ts @ ts') + n) m (benp_of_ctx c) = Some es' \<and>
      map (ev_tok m) es' = (ts @ ts') @ map (ev_tok m) es"
    using lexesD [OF assms(1) a1 es1(1)] by (auto simp: add.assoc)
qed

lemma lexes_single:
  assumes "\<And>m c r. at m c (bs @ r) \<Longrightarrow>
    \<exists>b. benr_next m c = Some (b, advance c (length bs)) \<and> ev_tok m (benp_of_benr b) = t"
  shows "lexes bs [t]"
  unfolding lexes_def using assms by (fastforce simp: benp_next_benr)

lemma lexes_leaf: "\<not> is_container v \<Longrightarrow> lexes (encode v) (toks v)"
proof -
  assume v: "\<not> is_container v"
  have "\<exists>b. benr_next m c = Some (b, advance c (length (encode v))) \<and> [ev_tok m (benp_of_benr b)] = toks v"
    if at: "at m c (encode v @ r)" for m c r
  proof -
    from benr_next_encode [OF at] v obtain b
      where "benr_next m c = Some (b, advance c (length (encode v)))" and b: "denotes m b v"
      by (metis (full_types))
    moreover have "[ev_tok m (benp_of_benr b)] = toks v"
      using b v by (cases v; cases b) simp_all
    ultimately show ?thesis by blast
  qed
  with v show ?thesis
    by (cases v) (auto intro!: lexes_single)
qed

lemma lexes_marker:
  assumes "\<And>r. lex_tok (b # r) = (t, 1)" "t = Tok_list \<or> t = Tok_dict \<or> t = Tok_end"
  shows "lexes [b] [t]"
proof (rule lexes_single)
  fix m c r
  assume "at m c ([b] @ r)"
  then have "at m c (b # r)" by (simp only: append_Cons append_Nil)
  from benr_next_at [OF this assms(1)]
  have "benr_next m c = Some (tok_benr (ctx_start c) (ctx_len c) t 1, advance c 1)" .
  with assms(2) show "\<exists>b'. benr_next m c = Some (b', advance c (length [b])) \<and> ev_tok m (benp_of_benr b') = t"
    by auto
qed

lemma lexes_container:
  assumes "lexes [b] [t]" "lexes body ts"
  shows "lexes (b # body @ [chr CHR ''e'']) (t # ts @ [Tok_end])"
  using lexes_append [OF lexes_append [OF assms] lexes_marker [of "chr CHR ''e''" Tok_end]] by simp

lemma lexes_encode: "lexes (encode v) (toks v)"
proof (induction v)
  case (BList vs)
  then have "lexes (enc_vals vs) (concat (map toks vs))"
    by (induction vs) (auto intro: lexes_append lexes_Nil)
  then show ?case
    unfolding encode_containers toks.simps by (intro lexes_container lexes_marker) simp_all
next
  case (BDict kvs)
  then have "\<forall>(k, v) \<in> set kvs. lexes (encode v) (toks v)" by auto
  then have "lexes (enc_items kvs) (concat (map (\<lambda>(k, v). Tok_str k # toks v) kvs))"
  proof (induction kvs)
    case (Cons kv kvs)
    obtain k v where kv: "kv = (k, v)" by (cases kv)
    have "lexes (enc_str k @ encode v @ enc_items kvs)
        ([Tok_str k] @ toks v @ concat (map (\<lambda>(k, v). Tok_str k # toks v) kvs))"
      using Cons lexes_leaf [of "BStr k"] kv by (intro lexes_append) simp_all
    then show ?case using kv by simp
  qed (simp add: lexes_Nil)
  then show ?case
    unfolding encode_containers toks.simps by (intro lexes_container lexes_marker) simp_all
qed (simp_all only: lexes_leaf is_container.simps not_False_eq_True)

lemma benp_events_done: "at m c [] \<Longrightarrow> benp_events n m (benp_of_ctx c) = Some (replicate n BENP_EV_DONE)"
  by (induction n) (simp_all add: benp_next_benr benr_next_Nil)

end
