(* ===== verification/Ben.thy ===== *)
theory Ben
  imports Benr_Api
begin

text \<open>
  The bencode writers of \<open>ben.h\<close>. They append to a \<open>darray_char\<close>, a growing array of the ccan
  library; the library is not part of the repository, so its operations are an argument (a
  \<open>darray_ops\<close> record), with the documented behaviour the writers rely on as the predicate
  \<open>darray_ok\<close>. \<open>printf\<close>'s conversions \<open>%zu\<close>, \<open>%lld\<close> and \<open>%.*s\<close> are modelled: the last one
  stops at a NUL byte. A result \<open>None\<close> is a failed assertion or a read outside the object.
\<close>

subsection \<open>Growing arrays\<close>

text \<open>\<open>darray_append\<close>, \<open>darray_printf\<close> (given the formatted text), \<open>darray_reset\<close>, and the
  contents (\<open>item\<close> with \<open>darray_size\<close>).\<close>

record 'd darray_ops =
  da_append :: "'d \<Rightarrow> byte \<Rightarrow> 'd"
  da_printf :: "'d \<Rightarrow> bytes \<Rightarrow> 'd"
  da_reset :: "'d \<Rightarrow> 'd"
  da_items :: "'d \<Rightarrow> bytes"

definition darray_ok :: "'d darray_ops \<Rightarrow> bool" where
  "darray_ok da \<longleftrightarrow>
     (\<forall>d b. da_items da (da_append da d b) = da_items da d @ [b]) \<and>
     (\<forall>d s. da_items da (da_printf da d s) = da_items da d @ s) \<and>
     (\<forall>d. da_items da (da_reset da d) = [])"

text \<open>Lists are such arrays.\<close>

definition list_darray :: "bytes darray_ops" where
  "list_darray = \<lparr>da_append = (\<lambda>d b. d @ [b]), da_printf = (@), da_reset = (\<lambda>d. []), da_items = (\<lambda>d. d)\<rparr>"

lemma list_darray_ok: "darray_ok list_darray"
  by (simp add: darray_ok_def list_darray_def)

lemma darray_okD:
  assumes "darray_ok da"
  shows "da_items da (da_append da d b) = da_items da d @ [b]"
    and "da_items da (da_printf da d s) = da_items da d @ s"
    and "da_items da (da_reset da d) = []"
  using assms by (simp_all add: darray_ok_def)

subsection \<open>The C library\<close>

text \<open>What \<open>%.*s\<close> writes: the bytes from \<open>p\<close> up to the precision or a NUL, whichever is first.\<close>

fun printf_s :: "bytes \<Rightarrow> ptr \<Rightarrow> nat \<Rightarrow> bytes option" where
  "printf_s m p 0 = Some []"
| "printf_s m p (Suc n) = do {
     b \<leftarrow> load m p;
     if b = 0 then Some [] else do { r \<leftarrow> printf_s m (p + 1) n; Some (b # r) }
   }"

definition strlen :: "bytes \<Rightarrow> ptr \<Rightarrow> size_t option" where
  "strlen m p = (if 0 \<in> set (drop p m) then Some (of_nat (length (takeWhile (\<lambda>b. b \<noteq> 0) (drop p m)))) else None)"

text \<open>The object of a string literal.\<close>

definition literal :: "string \<Rightarrow> bytes" where
  "literal s = str s @ [0]"

subsection \<open>The writers (ben.h)\<close>

definition ben_dict_begin :: "'d darray_ops \<Rightarrow> 'd \<Rightarrow> 'd" where
  "ben_dict_begin da d = da_append da d (chr CHR ''d'')"

definition ben_dict_end :: "'d darray_ops \<Rightarrow> 'd \<Rightarrow> 'd" where
  "ben_dict_end da d = da_append da d (chr CHR ''e'')"

definition ben_list_begin :: "'d darray_ops \<Rightarrow> 'd \<Rightarrow> 'd" where
  "ben_list_begin da d = da_append da d (chr CHR ''l'')"

definition ben_list_end :: "'d darray_ops \<Rightarrow> 'd \<Rightarrow> 'd" where
  "ben_list_end da d = da_append da d (chr CHR ''e'')"

definition ben_string :: "'d darray_ops \<Rightarrow> 'd \<Rightarrow> bytes \<Rightarrow> ptr \<Rightarrow> size_t \<Rightarrow> 'd option" where
  "ben_string da d m bytes len =
     (if unat len \<le> INT_MAX then do {
        s \<leftarrow> printf_s m bytes (unat len);
        Some (da_printf da d (dec_digits (unat len) @ chr CHR '':'' # s))
      }
      else None)"

definition ben_integer :: "'d darray_ops \<Rightarrow> 'd \<Rightarrow> u64 \<Rightarrow> 'd" where
  "ben_integer da d value = da_printf da d (chr CHR ''i'' # enc_int (sint value) @ [chr CHR ''e''])"

definition ben_string_c :: "'d darray_ops \<Rightarrow> 'd \<Rightarrow> bytes \<Rightarrow> ptr \<Rightarrow> 'd option" where
  "ben_string_c da d m s = do { n \<leftarrow> strlen m s; ben_string da d m s n }"

subsection \<open>What they write\<close>

lemma unat_of_nat_INT_MAX: "k \<le> INT_MAX \<Longrightarrow> unat (of_nat k :: size_t) = k"
  unfolding INT_MAX_def by (simp add: unat_of_nat)

lemma drop_load: "p < length m \<Longrightarrow> drop p m = m ! p # drop (Suc p) m"
  by (simp add: Cons_nth_drop_Suc)

text \<open>The text \<open>%.*s\<close> writes, when it stays inside the object.\<close>

lemma printf_s_inside: "inside m p n \<Longrightarrow> printf_s m p n = Some (takeWhile (\<lambda>b. b \<noteq> 0) (view m p n))"
proof (induction m p n rule: printf_s.induct)
  case (2 m p n)
  have "inside m (p + 1) n" "p < length m" using "2.prems" by (auto simp: inside_def)
  with "2.IH" show ?case
    by (auto simp: load_def view_def drop_load)
qed (simp add: mem_simps)

lemma ben_string_writes:
  assumes "darray_ok da" "inside m p (unat n)" "unat n \<le> INT_MAX"
  obtains d' where "ben_string da d m p n = Some d'"
    "da_items da d' = da_items da d @ dec_digits (unat n) @ chr CHR '':'' # takeWhile (\<lambda>b. b \<noteq> 0) (view m p (unat n))"
  using assms by (simp add: ben_string_def printf_s_inside darray_okD)

lemma no_NUL: "0 \<notin> set bs \<Longrightarrow> takeWhile (\<lambda>b. b \<noteq> (0 :: byte)) bs = bs"
  by (auto simp: takeWhile_eq_all_conv)

lemma ben_string_enc:
  assumes "darray_ok da" "inside m p (unat n)" "unat n \<le> INT_MAX" "0 \<notin> set (view m p (unat n))"
  obtains d' where "ben_string da d m p n = Some d'" "da_items da d' = da_items da d @ enc_str (view m p (unat n))"
  using ben_string_writes [OF assms(1-3), of d] assms
  by (metis enc_str_def length_view no_NUL)

text \<open>A NUL-terminated string of at most \<open>INT_MAX\<close> bytes.\<close>

lemma ben_string_c_enc:
  assumes "darray_ok da" "drop p m = s @ 0 # r" "0 \<notin> set s" "length s \<le> INT_MAX"
  obtains d' where "ben_string_c da d m p = Some d'" "da_items da d' = da_items da d @ enc_str s"
proof -
  have n: "unat (of_nat (length s) :: size_t) = length s"
    using assms(4) by (rule unat_of_nat_INT_MAX)
  have len: "strlen m p = Some (of_nat (length s))"
    using assms(2,3) by (simp add: strlen_def takeWhile_tail no_NUL)
  have "length m - p = length s + Suc (length r)"
    using arg_cong [OF assms(2), of length] by simp
  then have "inside m p (length s)"
    unfolding inside_def by linarith
  moreover have "view m p (length s) = s"
    by (simp add: view_def assms(2))
  ultimately obtain d' where "ben_string da d m p (of_nat (length s)) = Some d'"
      "da_items da d' = da_items da d @ enc_str s"
    using ben_string_enc [OF assms(1), of m p "of_nat (length s)" d] n assms(3,4) by metis
  with that len show thesis by (simp add: ben_string_c_def)
qed

lemma NUL_chr: "0 = chr c \<longleftrightarrow> CHR 0x00 = c"
proof -
  have "chr CHR 0x00 = 0" by (simp add: chr_def)
  then show ?thesis by (metis chr_eq_iff)
qed

lemma NUL_str: "CHR 0x00 \<notin> set s \<Longrightarrow> 0 \<notin> set (str s)"
  by (induction s) (simp_all only: str_Cons str_Nil list.set insert_iff empty_iff NUL_chr de_Morgan_disj not_False_eq_True)

lemma ben_string_c_literal:
  assumes "darray_ok da" "CHR 0x00 \<notin> set s" "length s \<le> INT_MAX"
  obtains d' where "ben_string_c da d (literal s) 0 = Some d'" "da_items da d' = da_items da d @ enc_str (str s)"
  using ben_string_c_enc [OF assms(1), of 0 "literal s" "str s" "[]" d] assms(2,3) NUL_str [OF assms(2)]
  by (auto simp: literal_def str_def)

lemma ben_integer_enc:
  "darray_ok da \<Longrightarrow> da_items da (ben_integer da d v) = da_items da d @ encode (BInt (sint v))"
  by (simp add: ben_integer_def darray_okD)

lemma ben_markers:
  assumes "darray_ok da"
  shows "da_items da (ben_dict_begin da d) = da_items da d @ [chr CHR ''d'']"
    and "da_items da (ben_dict_end da d) = da_items da d @ [chr CHR ''e'']"
    and "da_items da (ben_list_begin da d) = da_items da d @ [chr CHR ''l'']"
    and "da_items da (ben_list_end da d) = da_items da d @ [chr CHR ''e'']"
  using assms by (simp_all add: ben_dict_begin_def ben_dict_end_def ben_list_begin_def ben_list_end_def darray_okD)

subsection \<open>Writing a whole value\<close>

text \<open>A caller's recursion over the writers, each string in an object of its own.\<close>

fun run :: "('d \<Rightarrow> 'd option) list \<Rightarrow> 'd \<Rightarrow> 'd option" where
  "run [] d = Some d"
| "run (f # fs) d = Option.bind (f d) (run fs)"

fun write_val :: "'d darray_ops \<Rightarrow> bval \<Rightarrow> 'd \<Rightarrow> 'd option" where
  "write_val da (BInt i) d = Some (ben_integer da d (of_int i))"
| "write_val da (BStr s) d = ben_string da d s 0 (of_nat (length s))"
| "write_val da (BList vs) d =
     map_option (ben_list_end da) (run (map (\<lambda>v d. write_val da v d) vs) (ben_list_begin da d))"
| "write_val da (BDict kvs) d =
     map_option (ben_dict_end da) (run (map (\<lambda>(k, v) d.
         Option.bind (ben_string da d k 0 (of_nat (length k))) (\<lambda>d. write_val da v d)) kvs) (ben_dict_begin da d))"

definition string_ok :: "bytes \<Rightarrow> bool" where
  "string_ok s \<longleftrightarrow> length s \<le> INT_MAX \<and> 0 \<notin> set s"

fun strings_ok :: "bval \<Rightarrow> bool" where
  "strings_ok (BInt i) \<longleftrightarrow> True"
| "strings_ok (BStr s) \<longleftrightarrow> string_ok s"
| "strings_ok (BList vs) \<longleftrightarrow> list_all strings_ok vs"
| "strings_ok (BDict kvs) \<longleftrightarrow> list_all (\<lambda>(k, v). string_ok k \<and> strings_ok v) kvs"

lemma ben_string_object:
  assumes "darray_ok da" "string_ok s"
  obtains d' where "ben_string da d s 0 (of_nat (length s)) = Some d'" "da_items da d' = da_items da d @ enc_str s"
proof -
  have "unat (of_nat (length s) :: size_t) = length s"
    using assms(2) by (simp add: string_ok_def unat_of_nat_INT_MAX)
  with assms(2) have "inside s 0 (unat (of_nat (length s) :: size_t))"
      "view s 0 (unat (of_nat (length s) :: size_t)) = s" "unat (of_nat (length s) :: size_t) \<le> INT_MAX"
      "0 \<notin> set s"
    by (simp_all add: inside_def view_def string_ok_def)
  then show thesis
    using ben_string_enc [OF assms(1), of s 0 "of_nat (length s)" d] that by metis
qed

lemma write_val_encode:
  "darray_ok da \<Longrightarrow> ints_ok v \<Longrightarrow> strings_ok v \<Longrightarrow>
     \<exists>d'. write_val da v d = Some d' \<and> da_items da d' = da_items da d @ encode v"
proof (induction v arbitrary: d)
  case (BInt i)
  then show ?case by (simp add: ben_integer_enc sint_of_int_64)
next
  case (BStr s)
  then show ?case using ben_string_object [of da s d] by auto
next
  case (BList vs)
  have "\<exists>d'. run (map (\<lambda>v d. write_val da v d) us) d = Some d' \<and>
      da_items da d' = da_items da d @ enc_vals us" if "set us \<subseteq> set vs" for us d
    using that
  proof (induction us arbitrary: d)
    case (Cons u us)
    then obtain d1 where "write_val da u d = Some d1" "da_items da d1 = da_items da d @ encode u"
      using BList.IH [of u d] BList.prems by (auto simp: list_all_iff)
    with Cons.IH [of d1] Cons.prems show ?case by auto
  qed simp
  from this [OF order.refl, of "ben_list_begin da d"] show ?case
    using BList.prems by (auto simp: ben_markers encode_containers)
next
  case (BDict kvs)
  have "\<exists>d'. run (map (\<lambda>(k, v) d.
          Option.bind (ben_string da d k 0 (of_nat (length k))) (\<lambda>d. write_val da v d)) us) d = Some d' \<and>
      da_items da d' = da_items da d @ enc_items us" if "set us \<subseteq> set kvs" for us d
    using that
  proof (induction us arbitrary: d)
    case (Cons u us)
    obtain k v where u: "u = (k, v)" by (cases u)
    with Cons.prems BDict.prems have ok: "string_ok k" "ints_ok v" "strings_ok v"
      by (auto simp: list_all_iff)
    obtain d1 where d1: "ben_string da d k 0 (of_nat (length k)) = Some d1"
        "da_items da d1 = da_items da d @ enc_str k"
      using ben_string_object [OF BDict.prems(1) ok(1)] by metis
    obtain d2 where "write_val da v d1 = Some d2" "da_items da d2 = da_items da d1 @ encode v"
      using BDict.IH [of u v d1] Cons.prems u ok BDict.prems(1) by auto
    with Cons.IH [of d2] Cons.prems d1 u show ?case by auto
  qed simp
  from this [OF order.refl, of "ben_dict_begin da d"] show ?case
    using BDict.prems by (auto simp: ben_markers encode_containers)
qed

end
