(* ===== verification/Benr_Scan.thy ===== *)
theory Benr_Scan
  imports Benr_Iter
begin

text \<open>
  The container scan and the dictionary iterator of \<open>benr.c\<close> on any bytes, well formed or not: reference
  functions on lists of bytes that say where a scan ends and how much an iteration takes, the proof that the
  code computes them, and which dictionaries an iteration comes to an end on.
\<close>

subsection \<open>Skipping a container\<close>

lemma lex_tok_shorter: "lex_tok bs = (t, k) \<Longrightarrow> \<not> tok_stuck t \<Longrightarrow> 0 < k \<and> k \<le> length bs"
  using lex_pos [of bs] lex_le [of bs] by simp

text \<open>The bytes up to the end marker that closes \<open>d\<close> open containers, or the token that stops the search.\<close>

function skip_ref :: "nat \<Rightarrow> bytes \<Rightarrow> tok + nat" where
  "skip_ref d bs =
     (if d = 0 then Inr 0
      else (let (t, k) = lex_tok bs in
        if tok_stuck t then Inl t
        else map_sum id ((+) k)
          (skip_ref (if t = Tok_dict \<or> t = Tok_list then d + 1 else if t = Tok_end then d - 1 else d) (drop k bs))))"
  by pat_completeness auto

termination
proof (relation "measure (\<lambda>(d, bs). length bs)", goal_cases)
  case (2 d bs x t k)
  then show ?case using lex_tok_shorter [of bs t k] by auto
qed simp

declare skip_ref.simps [simp del]

lemma skip_ref_0 [simp]: "skip_ref 0 bs = Inr 0"
  by (subst skip_ref.simps) simp

lemma skip_ref_stuck: "d \<noteq> 0 \<Longrightarrow> lex_tok bs = (t, k) \<Longrightarrow> tok_stuck t \<Longrightarrow> skip_ref d bs = Inl t"
  by (subst skip_ref.simps) simp

lemma skip_ref_step:
  "d \<noteq> 0 \<Longrightarrow> lex_tok bs = (t, k) \<Longrightarrow> \<not> tok_stuck t \<Longrightarrow>
     skip_ref d bs = map_sum id ((+) k)
       (skip_ref (if t = Tok_dict \<or> t = Tok_list then d + 1 else if t = Tok_end then d - 1 else d) (drop k bs))"
  by (subst skip_ref.simps) simp

lemma skip_ref_le: "skip_ref d bs = Inr k \<Longrightarrow> k \<le> length bs"
proof (induction d bs arbitrary: k rule: skip_ref.induct)
  case (1 d bs)
  obtain t j where t: "lex_tok bs = (t, j)" by fastforce
  consider "d = 0" | "d \<noteq> 0" "tok_stuck t" | "d \<noteq> 0" "\<not> tok_stuck t" by blast
  then show ?case
  proof cases
    case 3
    let ?d = "if t = Tok_dict \<or> t = Tok_list then d + 1 else if t = Tok_end then d - 1 else d"
    from "1.prems" obtain l where l: "skip_ref ?d (drop j bs) = Inr l" "k = j + l"
      using skip_ref_step [OF 3(1) t 3(2)] by (cases "skip_ref ?d (drop j bs)") auto
    have "l \<le> length (drop j bs)" by (rule "1.IH" [OF 3(1) t [symmetric] refl 3(2) l(1)])
    with l(2) lex_tok_shorter [OF t 3(2)] show ?thesis by simp linarith
  qed (use "1.prems" t in \<open>auto simp: skip_ref_stuck\<close>)
qed

text \<open>The status the code returns where a token stops it.\<close>

definition stuck_status :: "tok \<Rightarrow> int" where
  "stuck_status t = (if t = Tok_none then - benr_kind BENR_ERR_UNEXPECTED_EOF else - benr_kind (tok_benr 0 0 t 0))"

lemma stuck_status_negative: "tok_stuck t \<Longrightarrow> stuck_status t < 0"
  by (cases t) (simp_all add: tok_stuck_def stuck_status_def)

lemma tok_benr_stuck:
  "tok_stuck t \<Longrightarrow> b = tok_benr p n t k \<Longrightarrow>
     \<not> benr_kind_is_container b \<and> b \<noteq> BENR_X_END \<and> (b = BENR_NONE \<longleftrightarrow> t = Tok_none) \<and>
     (benr_is_error b \<longleftrightarrow> t \<noteq> Tok_none) \<and> (t \<noteq> Tok_none \<longrightarrow> - benr_kind b = stuck_status t)"
  by (cases t) (simp_all add: tok_stuck_def stuck_status_def benr_is_error_def BENR_ERR_FIRST_def)

lemma tok_benr_not_stuck:
  "\<not> tok_stuck t \<Longrightarrow> b = tok_benr p n t k \<Longrightarrow>
     (benr_kind_is_container b \<longleftrightarrow> t = Tok_dict \<or> t = Tok_list) \<and> (b = BENR_X_END \<longleftrightarrow> t = Tok_end) \<and>
     b \<noteq> BENR_NONE \<and> \<not> benr_is_error b"
  by (cases t) (simp_all add: tok_stuck_def benr_is_error_def BENR_ERR_FIRST_def)

text \<open>The depth cannot wrap: it and the bytes left stay below \<open>2 ^ 64\<close>.\<close>

lemma adv_container_loop_ref:
  "at m c bs \<Longrightarrow> unat d + length bs < 2 ^ 64 \<Longrightarrow>
     adv_container_loop m d c =
       Some (case skip_ref (unat d) bs of Inl t \<Rightarrow> Inl (stuck_status t) | Inr k \<Rightarrow> Inr (advance c k))"
proof (induction m d c arbitrary: bs rule: adv_container_loop.induct)
  case (1 m d c)
  obtain t k where t: "lex_tok bs = (t, k)" by fastforce
  let ?b = "tok_benr (ctx_start c) (ctx_len c) t k"
  have nx: "benr_next m c = Some (?b, advance c k)" by (rule benr_next_at [OF "1.prems"(1) t])
  show ?case
  proof (cases "d = 0")
    case True
    then show ?thesis by (subst adv_container_loop.simps) simp
  next
    case d: False
    then have d0: "unat d \<noteq> 0" by (simp add: unat_eq_0)
    show ?thesis
    proof (cases "tok_stuck t")
      case True
      from tok_benr_stuck [OF this refl] have b: "\<not> benr_kind_is_container ?b" "?b \<noteq> BENR_X_END"
          "?b = BENR_NONE \<longleftrightarrow> t = Tok_none" "benr_is_error ?b \<longleftrightarrow> t \<noteq> Tok_none"
          "t \<noteq> Tok_none \<longrightarrow> - benr_kind ?b = stuck_status t" by blast+
      from skip_ref_stuck [OF d0 t True] d nx b show ?thesis
        by (subst adv_container_loop.simps) (cases "t = Tok_none"; simp add: stuck_status_def)
    next
      case False
      from tok_benr_not_stuck [OF this refl]
      have b: "benr_kind_is_container ?b \<longleftrightarrow> t = Tok_dict \<or> t = Tok_list" "?b = BENR_X_END \<longleftrightarrow> t = Tok_end"
          "?b \<noteq> BENR_NONE" "\<not> benr_is_error ?b" by blast+
      have k: "0 < k" "k \<le> length bs" using lex_tok_shorter [OF t False] by simp_all
      have at: "at m (advance c k) (drop k bs)"
        using at_advance [of m c "take k bs" "drop k bs"] "1.prems"(1) k(2) by simp
      let ?d = "if t = Tok_dict \<or> t = Tok_list then d + 1 else if t = Tok_end then d - 1 else d"
      let ?n = "if t = Tok_dict \<or> t = Tok_list then unat d + 1 else if t = Tok_end then unat d - 1 else unat d"
      have ud: "unat ?d = ?n"
        using "1.prems"(2) k d by (auto simp: unat_word_ariths unat_minus_one)
      have less: "unat ?d + length (drop k bs) < 2 ^ 64"
        using "1.prems"(2) k unfolding ud by auto
      have "adv_container_loop m d c = adv_container_loop m ?d (advance c k)"
        using d nx b by (subst adv_container_loop.simps) auto
      also have "\<dots> = Some (case skip_ref ?n (drop k bs) of Inl t \<Rightarrow> Inl (stuck_status t) | Inr j \<Rightarrow> Inr (advance (advance c k) j))"
      proof (cases "t = Tok_dict \<or> t = Tok_list")
        case True
        with "1.IH"(1) [OF d nx refl, of "drop k bs"] b(1) at less ud show ?thesis by simp
      next
        case nc: False
        show ?thesis
        proof (cases "t = Tok_end")
          case True
          with nc "1.IH"(2) [OF d nx refl, of "drop k bs"] b(1,2) at less ud show ?thesis by simp
        next
          case False
          with nc "1.IH"(3) [OF d nx refl, of "drop k bs"] b at less ud show ?thesis by simp
        qed
      qed
      finally show ?thesis
        using skip_ref_step [OF d0 t False] by (cases "skip_ref ?n (drop k bs)") (simp_all add: advance_advance)
    qed
  qed
qed

text \<open>An object has fewer than \<open>2 ^ 63\<close> bytes.\<close>

lemma at_short_obj: "at m c bs \<Longrightarrow> length m < 2 ^ 63 \<Longrightarrow> length bs < 2 ^ 63"
  using at_length [of m c bs] by (simp add: at_def inside_def)

lemma ctx_adv_container_ref:
  assumes "at m c bs" "length m < 2 ^ 63"
  shows "ctx_adv_container m c =
    Some (case skip_ref 1 bs of Inl t \<Rightarrow> (stuck_status t, c) | Inr k \<Rightarrow> (0, advance c k))"
proof -
  have "unat (1 :: u64) + length bs < 2 ^ 64" using at_short_obj [OF assms] by simp
  from adv_container_loop_ref [OF assms(1) this] show ?thesis
    by (simp add: ctx_adv_container_def split: sum.splits)
qed

lemma skip_ref_tok_stuck: "skip_ref d bs = Inl t \<Longrightarrow> tok_stuck t"
proof (induction d bs rule: skip_ref.induct)
  case (1 d bs)
  obtain u j where u: "lex_tok bs = (u, j)" by fastforce
  consider "d = 0" | "d \<noteq> 0" "tok_stuck u" | "d \<noteq> 0" "\<not> tok_stuck u" by blast
  then show ?case
  proof cases
    case 3
    let ?d = "if u = Tok_dict \<or> u = Tok_list then d + 1 else if u = Tok_end then d - 1 else d"
    from "1.prems" have "skip_ref ?d (drop j bs) = Inl t"
      using skip_ref_step [OF 3(1) u 3(2)] by (cases "skip_ref ?d (drop j bs)") auto
    from "1.IH" [OF 3(1) u [symmetric] refl 3(2) this] show ?thesis .
  qed (use "1.prems" u in \<open>auto simp: skip_ref_stuck\<close>)
qed

lemma at_drop: "at m c bs \<Longrightarrow> k \<le> length bs \<Longrightarrow> at m (advance c k) (drop k bs)"
  using at_advance [of m c "take k bs" "drop k bs"] by simp

subsection \<open>Calling an iterator until it stops\<close>

text \<open>\<open>item\<close> gives the bytes one call takes, or \<open>None\<close> where it returns a negative status: whether calling
  until the status is negative comes to an end.\<close>

function item_ends :: "(bytes \<Rightarrow> nat option) \<Rightarrow> bytes \<Rightarrow> bool" where
  "item_ends item bs =
     (case item bs of
        None \<Rightarrow> True
      | Some n \<Rightarrow> if n = 0 \<or> bs = [] then False else item_ends item (drop n bs))"
  by pat_completeness auto
termination by (relation "measure (\<lambda>(item, bs). length bs)") auto

declare item_ends.simps [simp del]

lemma item_ends_None: "item bs = None \<Longrightarrow> item_ends item bs"
  by (subst item_ends.simps) simp

lemma item_ends_0: "item bs = Some 0 \<Longrightarrow> \<not> item_ends item bs"
  by (subst item_ends.simps) simp

lemma item_ends_step:
  "item [] = Some 0 \<Longrightarrow> item bs = Some n \<Longrightarrow> n \<noteq> 0 \<Longrightarrow> item_ends item bs \<longleftrightarrow> item_ends item (drop n bs)"
  by (cases "bs = []") (simp_all add: item_ends.simps [of item bs])

text \<open>An iterator whose calls are described by \<open>item\<close> on every input.\<close>

locale scanning_iterator =
  fixes pos :: "'i \<Rightarrow> benr_ctx"
    and step :: "bytes \<Rightarrow> 'i \<Rightarrow> 'o \<Rightarrow> (int \<times> 'i \<times> 'o) option"
    and item :: "bytes \<Rightarrow> nat option"
  assumes step_stops: "at m (pos i) bs \<Longrightarrow> length m < 2 ^ 63 \<Longrightarrow> item bs = None \<Longrightarrow>
      \<exists>r i' out'. step m i out = Some (r, i', out') \<and> r < 0"
    and step_takes: "at m (pos i) bs \<Longrightarrow> length m < 2 ^ 63 \<Longrightarrow> item bs = Some n \<Longrightarrow>
      \<exists>i' out'. step m i out = Some (0, i', out') \<and> at m (pos i') (drop n bs)"
    and item_Nil: "item [] = Some 0"
begin

text \<open>Each call takes a byte or more, until one is negative or takes nothing; from there on nothing changes.\<close>

lemma read_all_ends:
  "item_ends item bs \<Longrightarrow> at m (pos i) bs \<Longrightarrow> length m < 2 ^ 63 \<Longrightarrow> length bs < n \<Longrightarrow>
     read_all n (step m) i out \<noteq> None"
proof (induction n arbitrary: bs i out)
  case (Suc n)
  show ?case
  proof (cases "item bs")
    case None
    from step_stops [OF Suc.prems(2,3) this, of out] show ?thesis by auto
  next
    case (Some k)
    have k: "k \<noteq> 0" using item_ends_0 [of item bs] Some Suc.prems(1) by auto
    have "bs \<noteq> []" using Some item_Nil k by auto
    with k have "length (drop k bs) < n" using Suc.prems(4) by (cases bs) auto
    moreover have "item_ends item (drop k bs)"
      using item_ends_step [of item, OF item_Nil Some k] Suc.prems(1) by simp
    ultimately show ?thesis
      using step_takes [OF Suc.prems(2,3) Some, of out] Suc.IH [OF _ _ Suc.prems(3)] by fastforce
  qed
qed simp

lemma read_all_never:
  "\<not> item_ends item bs \<Longrightarrow> at m (pos i) bs \<Longrightarrow> length m < 2 ^ 63 \<Longrightarrow> read_all n (step m) i out = None"
proof (induction n arbitrary: bs i out)
  case (Suc n)
  obtain k where k: "item bs = Some k" using item_ends_None [of item bs] Suc.prems(1) by (cases "item bs") auto
  have "\<not> item_ends item (drop k bs)"
    using item_ends_step [of item, OF item_Nil k] Suc.prems(1) by (cases "k = 0") auto
  then show ?case
    using step_takes [OF Suc.prems(2,3) k, of out] Suc.IH [OF _ _ Suc.prems(3)] by fastforce
qed simp

lemma read_all_ends_iff:
  assumes "at m (pos i) bs" "length m < 2 ^ 63"
  shows "(\<exists>n. read_all n (step m) i out \<noteq> None) \<longleftrightarrow> item_ends item bs"
    "read_all (Suc (length bs)) (step m) i out \<noteq> None \<longleftrightarrow> item_ends item bs"
proof -
  have enough: "item_ends item bs \<Longrightarrow> read_all (Suc (length bs)) (step m) i out \<noteq> None"
    using read_all_ends [OF _ assms, of "Suc (length bs)" out] by blast
  have never: "\<not> item_ends item bs \<Longrightarrow> read_all n (step m) i out = None" for n
    using read_all_never [OF _ assms] .
  show "(\<exists>n. read_all n (step m) i out \<noteq> None) \<longleftrightarrow> item_ends item bs"
    using enough never by metis
  show "read_all (Suc (length bs)) (step m) i out \<noteq> None \<longleftrightarrow> item_ends item bs"
    using enough never by metis
qed

end

subsection \<open>Iterating over a list\<close>

text \<open>The bytes one call takes, or \<open>None\<close> where it returns a negative status.\<close>

definition list_item :: "bytes \<Rightarrow> nat option" where
  "list_item bs =
     (let (t, j) = lex_tok bs in
      if t = Tok_end then None
      else if t = Tok_dict \<or> t = Tok_list then
        (case skip_ref 1 (drop j bs) of Inl _ \<Rightarrow> None | Inr l \<Rightarrow> Some (j + l))
      else Some j)"

lemma list_item_Nil: "list_item [] = Some 0"
  by (simp add: list_item_def)

lemma tok_benr_end: "tok_benr p n t k = BENR_X_END \<longleftrightarrow> t = Tok_end"
  by (cases t) simp_all

lemma tok_benr_container: "benr_kind_is_container (tok_benr p n t k) \<longleftrightarrow> t = Tok_dict \<or> t = Tok_list"
  by (cases t) simp_all

lemma benr_list_iter_next_ref:
  assumes at: "at m (li_ctx i) bs" and m: "length m < 2 ^ 63"
  obtains (stops) r i' where "list_item bs = None" "benr_list_iter_next m i b = Some (r, i', b)" "r < 0"
  | (item) n i' b' where "list_item bs = Some n" "benr_list_iter_next m i b = Some (0, i', b')"
      "at m (li_ctx i') (drop n bs)"
proof -
  obtain t j where t: "lex_tok bs = (t, j)" by fastforce
  let ?x = "tok_benr (ctx_start (li_ctx i)) (ctx_len (li_ctx i)) t j"
  let ?c = "advance (li_ctx i) j"
  have "j \<le> length bs" using lex_le [of bs] t by simp
  with at have at1: "at m ?c (drop j bs)" by (rule at_drop)
  note x = benr_next_at [OF at t]
  note unf = benr_list_iter_next_def Let_def list_item_def t tok_benr_end tok_benr_container
  consider "t = Tok_end" | "t \<noteq> Tok_end" "\<not> (t = Tok_dict \<or> t = Tok_list)" | "t = Tok_dict \<or> t = Tok_list" by blast
  then show thesis
  proof cases
    case 1
    with x show thesis by (intro stops [of "- 1" "i\<lparr>li_ctx := ?c\<lparr>ctx_len := 0\<rparr>\<rparr>"]) (simp_all add: unf)
  next
    case 2
    with x at1 show thesis by (intro item [of j "i\<lparr>li_ctx := ?c\<rparr>" ?x]) (simp_all add: unf)
  next
    case 3
    show thesis
    proof (cases "skip_ref 1 (drop j bs)")
      case (Inl e)
      from stuck_status_negative [OF skip_ref_tok_stuck [OF Inl]] 3 x Inl ctx_adv_container_ref [OF at1 m] show thesis
        by (intro stops [of "stuck_status e" "i\<lparr>li_ctx := ?c\<rparr>"]) (auto simp: unf)
    next
      case (Inr l)
      from at_drop [OF at1 skip_ref_le [OF Inr]] have "at m (advance ?c l) (drop (j + l) bs)" by (simp add: add.commute)
      with 3 x Inr ctx_adv_container_ref [OF at1 m] show thesis
        by (intro item [of "j + l" "i\<lparr>li_ctx := advance ?c l\<rparr>" ?x]) (auto simp: unf)
    qed
  qed
qed

interpretation list_scan: scanning_iterator "li_ctx :: benr_list_iter \<Rightarrow> benr_ctx" benr_list_iter_next list_item
proof
  fix m and i :: benr_list_iter and bs and out :: benr
  assume a: "at m (li_ctx i) bs" "length m < 2 ^ 63"
  show "list_item bs = None \<Longrightarrow> \<exists>r i' out'. benr_list_iter_next m i out = Some (r, i', out') \<and> r < 0"
    using benr_list_iter_next_ref [OF a, of out] by fastforce
  show "list_item bs = Some n \<Longrightarrow>
      \<exists>i' out'. benr_list_iter_next m i out = Some (0, i', out') \<and> at m (li_ctx i') (drop n bs)" for n
    using benr_list_iter_next_ref [OF a, of out] by fastforce
qed (rule list_item_Nil)

subsection \<open>Iterating over a dictionary\<close>

text \<open>The bytes one call takes, or \<open>None\<close> where it returns a negative status.\<close>

definition dict_item :: "bytes \<Rightarrow> nat option" where
  "dict_item bs =
     (let (t, j) = lex_tok bs in
      if t = Tok_end then None
      else (let (u, k) = lex_tok (drop j bs) in
        if u = Tok_end then None
        else if u = Tok_dict \<or> u = Tok_list then
          (case skip_ref 1 (drop (j + k) bs) of Inl _ \<Rightarrow> None | Inr l \<Rightarrow> Some (j + k + l))
        else Some (j + k)))"

abbreviation dict_ends :: "bytes \<Rightarrow> bool" where
  "dict_ends \<equiv> item_ends dict_item"

lemma dict_item_Nil: "dict_item [] = Some 0"
  by (simp add: dict_item_def)

lemmas dict_ends_None = item_ends_None [of dict_item]
lemmas dict_ends_0 = item_ends_0 [of dict_item]
lemmas dict_ends_step = item_ends_step [of dict_item, OF dict_item_Nil]

lemma dict_item_le: "dict_item bs = Some n \<Longrightarrow> n \<le> length bs"
proof -
  assume n: "dict_item bs = Some n"
  obtain t j where t: "lex_tok bs = (t, j)" by fastforce
  obtain u k where u: "lex_tok (drop j bs) = (u, k)" by fastforce
  have jk: "j \<le> length bs" "k \<le> length bs - j" using lex_le [of bs] lex_le [of "drop j bs"] t u by simp_all
  have l: "skip_ref 1 (drop (j + k) bs) = Inr l \<Longrightarrow> j + k + l \<le> length bs" for l
    using skip_ref_le [of 1 "drop (j + k) bs" l] jk by auto
  from n t u jk l show ?thesis by (auto simp: dict_item_def Let_def split: if_splits sum.splits)
qed

text \<open>One call of \<open>benr_dict_iter_next\<close> on any bytes.\<close>

lemma benr_dict_iter_next_ref:
  assumes at: "at m (di_ctx di) bs" and m: "length m < 2 ^ 63"
  obtains (stops) r di' where "dict_item bs = None" "benr_dict_iter_next m di k v = Some (r, di', k, v)" "r < 0"
  | (item) n di' k' v' where "dict_item bs = Some n" "benr_dict_iter_next m di k v = Some (0, di', k', v')"
      "at m (di_ctx di') (drop n bs)" "benr_inside m k'" "benr_inside m v'"
proof -
  obtain t i where t: "lex_tok bs = (t, i)" by fastforce
  obtain u j where u: "lex_tok (drop i bs) = (u, j)" by fastforce
  let ?x = "tok_benr (ctx_start (di_ctx di)) (ctx_len (di_ctx di)) t i"
  let ?c = "advance (di_ctx di) i"
  let ?y = "tok_benr (ctx_start ?c) (ctx_len ?c) u j"
  have le: "i \<le> length bs" "j \<le> length (drop i bs)" using lex_le [of bs] lex_le [of "drop i bs"] t u by simp_all
  have at1: "at m ?c (drop i bs)"
    using at le(1) by (rule at_drop)
  have at2: "at m (advance ?c j) (drop (i + j) bs)"
    using at_drop [OF at1 le(2)] by (simp add: add.commute)
  note x = benr_next_at [OF at t] and y = benr_next_at [OF at1 u]
  note end_iff = tok_benr_end and cont = tok_benr_container
  note unf = benr_dict_iter_next_def Let_def
  have in_ctx: "in_ctx m (di_ctx di)" using at by (simp add: at_def)
  have safe: "benr_inside m ?x" "benr_inside m ?y"
    using tok_benr_inside [of m "di_ctx di" t i] tok_benr_inside [of m ?c u j] at at1 t u by (auto simp: at_def)
  show thesis
  proof (cases "t = Tok_end")
    case True
    with x show ?thesis
      by (intro stops [of "- 1" "di\<lparr>di_ctx := (advance (di_ctx di) i)\<lparr>ctx_len := 0\<rparr>\<rparr>"]) (simp_all add: unf dict_item_def t)
  next
    case nt: False
    show ?thesis
    proof (cases "u = Tok_end")
      case True
      with nt x y show ?thesis
        by (intro stops [of "- 1" "di\<lparr>di_ctx := (advance ?c j)\<lparr>ctx_len := 0\<rparr>\<rparr>"]) (simp_all add: unf dict_item_def t u end_iff)
    next
      case nu: False
      show ?thesis
      proof (cases "u = Tok_dict \<or> u = Tok_list")
        case False
        with nt nu x y show ?thesis
          by (intro item [of "i + j" "di\<lparr>di_ctx := advance ?c j\<rparr>" ?x ?y])
             (simp_all add: unf dict_item_def t u end_iff cont at2 safe)
      next
        case True
        show ?thesis
        proof (cases "skip_ref 1 (drop (i + j) bs)")
          case (Inl e)
          from stuck_status_negative [OF skip_ref_tok_stuck [OF Inl]] True nt nu x y Inl ctx_adv_container_ref [OF at2 m] show ?thesis
            by (intro stops [of "stuck_status e" "di\<lparr>di_ctx := advance ?c j\<rparr>"]) (simp_all add: unf dict_item_def t u end_iff cont)
        next
          case (Inr l)
          have "l \<le> length (drop (i + j) bs)" by (rule skip_ref_le [OF Inr])
          from at_drop [OF at2 this] have "at m (advance (advance ?c j) l) (drop (i + j + l) bs)"
            by (simp add: ac_simps)
          with True nt nu x y Inr ctx_adv_container_ref [OF at2 m] show ?thesis
            by (intro item [of "i + j + l" "di\<lparr>di_ctx := advance (advance ?c j) l\<rparr>" ?x ?y])
               (simp_all add: unf dict_item_def t u end_iff cont safe)
        qed
      qed
    qed
  qed
qed

interpretation dict_scan: scanning_iterator "di_ctx :: benr_dict_iter \<Rightarrow> benr_ctx" dict_step dict_item
proof
  fix m and i :: benr_dict_iter and bs and out :: "benr \<times> benr"
  assume a: "at m (di_ctx i) bs" "length m < 2 ^ 63"
  show "dict_item bs = None \<Longrightarrow> \<exists>r i' out'. dict_step m i out = Some (r, i', out') \<and> r < 0"
    using benr_dict_iter_next_ref [OF a, of "fst out" "snd out"] by (fastforce simp: dict_step_def)
  show "dict_item bs = Some n \<Longrightarrow>
      \<exists>i' out'. dict_step m i out = Some (0, i', out') \<and> at m (di_ctx i') (drop n bs)" for n
    using benr_dict_iter_next_ref [OF a, of "fst out" "snd out"] by (fastforce simp: dict_step_def)
qed (rule dict_item_Nil)

end
