(* ===== verification/Benr_Types.thy ===== *)
theory Benr_Types
  imports Benr_Scan
begin

text \<open>
  Type soundness of the \<open>benr.h\<close> interface: everything a caller can get from a buffer with \<open>benr_init\<close>, the
  accessors and the iterators, in any order and any number of calls, points into the buffer, so that every
  further call is defined. The rules for values and the two kinds of iterators are mutually inductive.
\<close>

inductive got_value :: "bytes \<Rightarrow> ptr \<Rightarrow> size_t \<Rightarrow> benr \<Rightarrow> bool"
  and got_list_iter :: "bytes \<Rightarrow> ptr \<Rightarrow> size_t \<Rightarrow> benr_list_iter \<Rightarrow> bool"
  and got_dict_iter :: "bytes \<Rightarrow> ptr \<Rightarrow> size_t \<Rightarrow> benr_dict_iter \<Rightarrow> bool"
  for m data n where
  got_init: "benr_init m data n = Some b \<Longrightarrow> got_value m data n b"
| got_list: "got_value m data n b \<Longrightarrow> benr_as_list b l0 = (0, l) \<Longrightarrow> got_list_iter m data n (benr_list_iter_of l)"
| got_dict: "got_value m data n b \<Longrightarrow> benr_as_dict b d0 = (0, d) \<Longrightarrow> got_dict_iter m data n (benr_dict_iter_of d)"
| got_list_next: "got_list_iter m data n l \<Longrightarrow> benr_list_iter_next m l x = Some (r, l', y) \<Longrightarrow> got_list_iter m data n l'"
| got_item: "got_list_iter m data n l \<Longrightarrow> benr_list_iter_next m l x = Some (0, l', y) \<Longrightarrow> got_value m data n y"
| got_dict_next: "got_dict_iter m data n d \<Longrightarrow> benr_dict_iter_next m d k v = Some (r, d', k', v') \<Longrightarrow>
    got_dict_iter m data n d'"
| got_key: "got_dict_iter m data n d \<Longrightarrow> benr_dict_iter_next m d k v = Some (0, d', k', v') \<Longrightarrow> got_value m data n k'"
| got_val: "got_dict_iter m data n d \<Longrightarrow> benr_dict_iter_next m d k v = Some (0, d', k', v') \<Longrightarrow> got_value m data n v'"

lemma benr_init_inside:
  assumes "inside m data (unat n)" "benr_init m data n = Some b"
  shows "benr_inside m b"
proof -
  obtain b' c' where b: "benr_next m \<lparr>ctx_start = data, ctx_len = n\<rparr> = Some (b', c')" "benr_inside m b'"
    using benr_next_safe [of m "\<lparr>ctx_start = data, ctx_len = n\<rparr>"] assms(1) by (metis benr_ctx.select_convs)
  have "data < length m" if "b' = BENR_X_END"
  proof (rule ccontr)
    assume "\<not> data < length m"
    with assms(1) have "n = 0" by (simp add: inside_def unat_eq_0 [symmetric])
    with b(1) that show False by (simp add: benr_next_def)
  qed
  with b assms(2) show ?thesis by (auto simp: benr_init_def split: if_splits)
qed

lemma as_list_iff: "benr_as_list b l0 = (0, l) \<longleftrightarrow> b = BENR_LIST l"
  by (cases b) (auto simp: benr_as_list_def)

lemma as_dict_iff: "benr_as_dict b d0 = (0, d) \<longleftrightarrow> b = BENR_DICT d"
  by (cases b) (auto simp: benr_as_dict_def)

lemma as_string_iff: "benr_as_string b s0 = (0, s) \<longleftrightarrow> b = BENR_STRING s"
  by (cases b) (auto simp: benr_as_string_def)

lemma as_int_iff: "benr_as_int b i0 = (0, i) \<longleftrightarrow> b = BENR_INT i"
  by (cases b) (auto simp: benr_as_int_def)

text \<open>Preservation.\<close>

lemma got_inside:
  assumes "inside m data (unat n)"
  shows "got_value m data n b \<Longrightarrow> benr_inside m b"
    and "got_list_iter m data n l \<Longrightarrow> in_ctx m (li_ctx l)"
    and "got_dict_iter m data n d \<Longrightarrow> in_ctx m (di_ctx d)"
proof (induction rule: got_value_got_list_iter_got_dict_iter.inducts)
  case (got_init b)
  with assms show ?case by (rule benr_init_inside)
next
  case (got_list b l0 l)
  then show ?case by (simp add: as_list_iff benr_list_iter_of_def)
next
  case (got_dict b d0 d)
  then show ?case by (simp add: as_dict_iff benr_dict_iter_of_def)
next
  case (got_list_next l x r l' y)
  from benr_list_iter_next_safe [OF got_list_next(2), of x] got_list_next(3) show ?case by auto
next
  case (got_item l x l' y)
  from benr_list_iter_next_safe [OF got_item(2), of x] got_item(3) show ?case by fastforce
next
  case (got_dict_next d k v r d' k' v')
  from benr_dict_iter_next_safe [OF got_dict_next(2), of k v] got_dict_next(3) show ?case by auto
next
  case (got_key d k v d' k' v')
  from benr_dict_iter_next_safe [OF got_key(2), of k v] got_key(3) show ?case by fastforce
next
  case (got_val d k v d' k' v')
  from benr_dict_iter_next_safe [OF got_val(2), of k v] got_val(3) show ?case by fastforce
qed

text \<open>Progress.\<close>

lemma got_progress:
  assumes "inside m data (unat n)"
  shows "\<exists>b. benr_init m data n = Some b"
    and "got_list_iter m data n l \<Longrightarrow> benr_list_iter_next m l x \<noteq> None"
    and "got_dict_iter m data n d \<Longrightarrow> benr_dict_iter_next m d k v \<noteq> None"
    and "got_value m data n b \<Longrightarrow> benr_as_string b s0 = (0, s) \<Longrightarrow> load_bytes m (s_start s) (unat (s_len s)) \<noteq> None"
proof -
  obtain b' c' where b: "benr_next m \<lparr>ctx_start = data, ctx_len = n\<rparr> = Some (b', c')"
    using benr_next_safe [of m "\<lparr>ctx_start = data, ctx_len = n\<rparr>"] assms(1) by (metis benr_ctx.select_convs)
  then show "\<exists>b. benr_init m data n = Some b" by (simp add: benr_init_def)
next
  assume "got_list_iter m data n l"
  from benr_list_iter_next_safe [OF got_inside(2) [OF assms this], of x]
  show "benr_list_iter_next m l x \<noteq> None" by (metis option.discI)
next
  assume "got_dict_iter m data n d"
  from benr_dict_iter_next_safe [OF got_inside(3) [OF assms this], of k v]
  show "benr_dict_iter_next m d k v \<noteq> None" by (metis option.discI)
next
  assume "got_value m data n b" "benr_as_string b s0 = (0, s)"
  with got_inside(1) [OF assms this(1)] show "load_bytes m (s_start s) (unat (s_len s)) \<noteq> None"
    by (simp add: as_string_iff load_bytes_def)
qed

end
