(* ===== verification/Bencode_Properties.thy ===== *)
theory Bencode_Properties
  imports Readers Ben Benr_Types
begin

text \<open>
  The properties of the bencode components: the pull reader \<open>benr.c\<close>, the event parser \<open>benp.c\<close> and
  the writers \<open>ben.h\<close>. Each is a theorem about the definitions that model the code; where it has
  hypotheses, a witness applies it to concrete bytes.
\<close>

subsection \<open>Objects for the witnesses\<close>

text \<open>A cursor over a whole object, and facts that let the simplifier place it.\<close>

definition ctx_over :: "bytes \<Rightarrow> benr_ctx" where
  "ctx_over m = \<lparr>ctx_start = 0, ctx_len = of_nat (length m)\<rparr>"

lemma ctx_over_fields [simp]: "ctx_start (ctx_over m) = 0" "ctx_len (ctx_over m) = of_nat (length m)"
  by (simp_all add: ctx_over_def)

lemma unat_of_nat_u64: "n < 2 ^ 64 \<Longrightarrow> unat (of_nat n :: u64) = n"
  by (simp add: unat_of_nat)

lemma ctx_over_at: "length m < 2 ^ 64 \<Longrightarrow> at m (ctx_over m) m"
  by (simp add: at_def inside_def view_def unat_of_nat_u64)

lemma length_str [simp]: "length (str s) = length s"
  by (simp add: str_def)

lemma dec_digits_1: "n < 10 \<Longrightarrow> dec_digits n = [of_nat n + 48]"
  by (subst dec_digits.simps) simp

lemma chr_digit: "chr CHR ''1'' = 49" "chr CHR ''2'' = 50"
  by (simp_all add: chr_def)

lemma enc_example: "encode (BDict [(str ''a'', BList [])]) = str ''d1:alee''"
  by (simp add: encode_containers enc_str_def dec_digits_1 chr_digit)

lemma enc_items_example: "enc_items [(str ''a'', BList [])] @ chr CHR ''e'' # [] = str ''1:alee''"
  by (simp add: encode_containers enc_str_def dec_digits_1 chr_digit)

lemma enc_vals_example: "enc_vals [BList []] @ chr CHR ''e'' # [] = str ''lee''"
  by (simp add: encode_containers)

lemma length_dec_digits: "length (dec_digits n) \<le> Suc n"
proof (induction n rule: dec_digits.induct)
  case (1 n)
  then show ?case by (subst dec_digits.simps) auto
qed

subsection \<open>The pull reader\<close>

text \<open>C22. On a cursor inside its object, \<open>benr_next\<close> computes the reference lexer: the value is that
  of the next token at this place, and the cursor is behind the token (in front of it for an
  error or the end of the data).\<close>

theorem benr_next_refines_lexer:
  assumes "in_ctx m c"
  shows "benr_next m c = Some (lex_benr (ctx_start c) (ctx_len c) (lex_tok (ctx_view m c)))"
  using assms by (rule benr_next_lex)

theorem benr_next_refines_lexer_witness:
  "benr_next (str ''i-7e'') (ctx_over (str ''i-7e'')) = Some (BENR_INT (- 7), \<lparr>ctx_start = 4, ctx_len = 0\<rparr>)"
proof -
  have "in_ctx (str ''i-7e'') (ctx_over (str ''i-7e''))"
    using ctx_over_at [of "str ''i-7e''"] by (simp add: at_def)
  from benr_next_refines_lexer [OF this] show ?thesis
    by (simp add: view_def lex_int_def isdigit_def chr_def dec_acc_def lex_benr_def mk_ctx_def)
qed

text \<open>On a cursor inside its object, \<open>benr_next\<close> reads inside it and leaves the cursor inside it.\<close>

lemma benr_next_memory_safe:
  assumes "in_ctx m c"
  shows "\<exists>b c'. benr_next m c = Some (b, c') \<and> in_ctx m c' \<and> ctx_end c' = ctx_end c \<and> benr_inside m b"
  using benr_next_safe [OF assms] by metis

text \<open>C7. Type soundness of the interface of \<open>benr.h\<close>, for any bytes: \<open>benr_init\<close> is defined, and whatever a caller
  gets from it through the accessors and the iterators, in any order and any number of calls (also after an
  error or the end), points into the buffer, so that every further call, and reading a string, is defined.\<close>

theorem benr_api_type_sound:
  assumes "inside m data (unat n)"
  shows "(\<exists>b. benr_init m data n = Some b) \<and>
    (got_value m data n b \<longrightarrow> benr_inside m b \<and>
       (\<forall>s0 s. benr_as_string b s0 = (0, s) \<longrightarrow> load_bytes m (s_start s) (unat (s_len s)) \<noteq> None)) \<and>
    (got_list_iter m data n l \<longrightarrow> (\<forall>x. benr_list_iter_next m l x \<noteq> None)) \<and>
    (got_dict_iter m data n d \<longrightarrow> (\<forall>k v. benr_dict_iter_next m d k v \<noteq> None))"
  using got_progress [OF assms] got_inside(1) [OF assms] by blast

theorem benr_api_type_sound_witness:
  "\<exists>l. got_list_iter (str ''l9:a'') 0 4 \<lparr>li_ctx = l\<rparr> \<and> benr_list_iter_next (str ''l9:a'') \<lparr>li_ctx = l\<rparr> BENR_NONE \<noteq> None"
proof -
  let ?m = "str ''l9:a''" and ?l = "\<lparr>l_ctx = \<lparr>ctx_start = 1, ctx_len = 3\<rparr>\<rparr>"
  have "benr_init ?m 0 4 = Some (BENR_LIST ?l)" by code_simp
  then have "got_value ?m 0 4 (BENR_LIST ?l)" by (rule got_init)
  moreover have "benr_as_list (BENR_LIST ?l) ?l = (0, ?l)" by (simp add: benr_as_list_def)
  ultimately have g: "got_list_iter ?m 0 4 \<lparr>li_ctx = \<lparr>ctx_start = 1, ctx_len = 3\<rparr>\<rparr>"
    by (auto dest: got_list simp: benr_list_iter_of_def)
  have "inside ?m 0 (unat (4 :: size_t))" by (simp add: inside_def)
  from benr_api_type_sound [OF this] g show ?thesis by blast
qed

text \<open>C5. Memory safety of the iterators: on a cursor inside its object both iterators read inside it,
  keep their cursor inside it, return a status of at most 0, touch the output parameters only with status
  0, and then what they store lies in the object.\<close>

theorem benr_iterators_memory_safe:
  assumes "in_ctx m c"
  shows "(\<exists>r l b'. benr_list_iter_next m \<lparr>li_ctx = c\<rparr> b = Some (r, l, b') \<and> in_ctx m (li_ctx l) \<and>
      r \<le> 0 \<and> (r < 0 \<longrightarrow> b' = b) \<and> (r = 0 \<longrightarrow> benr_inside m b')) \<and>
    (\<exists>r d k' v'. benr_dict_iter_next m \<lparr>di_ctx = c\<rparr> k v = Some (r, d, k', v') \<and> in_ctx m (di_ctx d) \<and>
      r \<le> 0 \<and> (r < 0 \<longrightarrow> k' = k \<and> v' = v) \<and> (r = 0 \<longrightarrow> benr_inside m k' \<and> benr_inside m v'))"
proof
  have l: "in_ctx m (li_ctx \<lparr>li_ctx = c\<rparr>)" and d: "in_ctx m (di_ctx \<lparr>di_ctx = c\<rparr>)"
    using assms by simp_all
  show "\<exists>r l b'. benr_list_iter_next m \<lparr>li_ctx = c\<rparr> b = Some (r, l, b') \<and> in_ctx m (li_ctx l) \<and>
      r \<le> 0 \<and> (r < 0 \<longrightarrow> b' = b) \<and> (r = 0 \<longrightarrow> benr_inside m b')"
    by (rule benr_list_iter_next_safe [OF l, of b]) blast
  show "\<exists>r d k' v'. benr_dict_iter_next m \<lparr>di_ctx = c\<rparr> k v = Some (r, d, k', v') \<and> in_ctx m (di_ctx d) \<and>
      r \<le> 0 \<and> (r < 0 \<longrightarrow> k' = k \<and> v' = v) \<and> (r = 0 \<longrightarrow> benr_inside m k' \<and> benr_inside m v')"
    by (rule benr_dict_iter_next_safe [OF d, of k v]) blast
qed

theorem benr_iterators_memory_safe_witness:
  "(\<exists>r l b'. benr_list_iter_next (str ''dl'') \<lparr>li_ctx = ctx_over (str ''dl'')\<rparr> BENR_NONE = Some (r, l, b') \<and> r \<le> 0) \<and>
   (\<exists>r d k' v'. benr_dict_iter_next (str ''dl'') \<lparr>di_ctx = ctx_over (str ''dl'')\<rparr> BENR_NONE BENR_NONE =
      Some (r, d, k', v') \<and> r \<le> 0)"
  using benr_iterators_memory_safe [of "str ''dl''" "ctx_over (str ''dl'')" BENR_NONE BENR_NONE BENR_NONE]
  by (auto simp: inside_def)

text \<open>C9. The container scan: in front of the body of an encoded list or dictionary, \<open>ctx_adv_container\<close>
  returns 0 with the cursor behind the matching end marker, whatever the nesting and whatever follows.\<close>

theorem ctx_adv_container_finds_end:
  assumes "at m c (encode v @ r)" "is_container v" "length m < 2 ^ 64"
  shows "ctx_adv_container m (advance c 1) = Some (0, advance c (length (encode v)))"
  using assms by (rule ctx_adv_container_encode)

theorem ctx_adv_container_finds_end_witness:
  "ctx_adv_container (str ''lleex'') \<lparr>ctx_start = 1, ctx_len = 4\<rparr> = Some (0, \<lparr>ctx_start = 4, ctx_len = 1\<rparr>)"
proof -
  have "encode (BList [BList []]) @ str ''x'' = str ''lleex''"
    by (simp add: encode_containers)
  then have "at (str ''lleex'') (ctx_over (str ''lleex'')) (encode (BList [BList []]) @ str ''x'')"
    using ctx_over_at [of "str ''lleex''"] by simp
  from ctx_adv_container_finds_end [OF this] show ?thesis
    by (simp add: advance_def mk_ctx_def encode_containers)
qed

text \<open>C10. The container scan on any bytes, in an object of less than \<open>2 ^ 63\<close> bytes: \<open>ctx_adv_container\<close> computes
  \<open>skip_ref\<close>, which matches the markers of the tokens of the text with a depth that is no machine integer. It
  returns 0 behind the marker that closes the container; where a token is broken or the data ends, the negated
  kind of that error, with the cursor where it was.\<close>

theorem ctx_adv_container_reference:
  assumes "in_ctx m c" "length m < 2 ^ 63"
  shows "ctx_adv_container m c =
    Some (case skip_ref 1 (ctx_view m c) of Inl t \<Rightarrow> (stuck_status t, c) | Inr k \<Rightarrow> (0, advance c k))"
  using assms by (intro ctx_adv_container_ref) (simp_all add: at_def)

theorem ctx_adv_container_reference_witness:
  "ctx_adv_container (str ''l1:eei'') (ctx_over (str ''l1:eei'')) = Some (- benr_kind BENR_ERR_UNEXPECTED_EOF, ctx_over (str ''l1:eei''))"
proof -
  have "in_ctx (str ''l1:eei'') (ctx_over (str ''l1:eei''))" "length (str ''l1:eei'') < 2 ^ 63"
    by (simp_all add: inside_def)
  note r = ctx_adv_container_reference [OF this]
  have "skip_ref 1 (str ''l1:eei'') = Inl Tok_eof" by code_simp
  moreover have "ctx_view (str ''l1:eei'') (ctx_over (str ''l1:eei'')) = str ''l1:eei''" by (simp add: view_def)
  ultimately show ?thesis using r by (simp add: stuck_status_def)
qed

text \<open>C11. Iterating over a complete list: calling \<open>benr_list_iter_next\<close> until the status is negative
  ends after one call more than there are items, and the values stored are the items, in order.\<close>

theorem list_iteration_exact:
  assumes "at m (li_ctx i) (enc_vals vs @ chr CHR ''e'' # rest)" "length m < 2 ^ 64"
  shows "\<exists>outs. read_all (Suc (length vs)) (benr_list_iter_next m) i b = Some outs \<and>
    list_all2 (denotes m) outs vs"
  using assms list_iterator.read_all_items [of m i vs rest b] by (simp add: enc_vals_concat)

theorem list_iteration_exact_witness:
  "\<exists>outs. read_all (Suc (length [BList []])) (benr_list_iter_next (str ''lee''))
       \<lparr>li_ctx = ctx_over (str ''lee'')\<rparr> BENR_NONE = Some outs \<and>
     list_all2 (denotes (str ''lee'')) outs [BList []]"
proof (rule list_iteration_exact)
  show "at (str ''lee'') (li_ctx \<lparr>li_ctx = ctx_over (str ''lee'')\<rparr>) (enc_vals [BList []] @ chr CHR ''e'' # [])"
    unfolding enc_vals_example using ctx_over_at [of "str ''lee''"] by simp
qed simp

text \<open>C12. Iterating over a complete dictionary delivers exactly its keys and values, in order, and
  then the end.\<close>

theorem dict_iteration_exact:
  assumes "at m (di_ctx i) (enc_items kvs @ chr CHR ''e'' # rest)" "length m < 2 ^ 64"
  shows "\<exists>outs. read_all (Suc (length kvs)) (\<lambda>i kv. benr_dict_iter_next m i (fst kv) (snd kv)) i (k, v) = Some outs \<and>
    list_all2 (\<lambda>out kv. denotes m (fst out) (BStr (fst kv)) \<and> denotes m (snd out) (snd kv)) outs kvs"
  using assms dict_iterator.read_all_items [of m i kvs rest "(k, v)"]
  unfolding enc_items_concat dict_step_def denotes_item_def by simp

theorem dict_iteration_exact_witness:
  "\<exists>outs. read_all (Suc (length [(str ''a'', BList [])]))
       (\<lambda>i kv. benr_dict_iter_next (str ''1:alee'') i (fst kv) (snd kv))
       \<lparr>di_ctx = ctx_over (str ''1:alee'')\<rparr> (BENR_NONE, BENR_NONE) = Some outs \<and>
     list_all2 (\<lambda>out kv. denotes (str ''1:alee'') (fst out) (BStr (fst kv)) \<and>
       denotes (str ''1:alee'') (snd out) (snd kv)) outs [(str ''a'', BList [])]"
proof (rule dict_iteration_exact)
  show "at (str ''1:alee'') (di_ctx \<lparr>di_ctx = ctx_over (str ''1:alee'')\<rparr>)
      (enc_items [(str ''a'', BList [])] @ chr CHR ''e'' # [])"
    unfolding enc_items_example using ctx_over_at [of "str ''1:alee''"] by simp
qed simp

text \<open>C1. Reading back an encoded value: \<open>benr_init\<close> on the encoding of any value (whose integers
  fit \<open>intmax_t\<close>), followed by anything, gives a value from which the accessors and iterators recover
  exactly the encoded value.\<close>

theorem benr_reads_encoding:
  assumes "m = pre @ encode v @ post" "unat n = length (encode v @ post)" "length m < 2 ^ 64" "ints_ok v"
  shows "\<exists>b. benr_init m (length pre) n = Some b \<and> walk (length (encode v)) m b = Some v"
proof -
  obtain b where "benr_init m (length pre) n = Some b" "denotes m b v"
    using benr_init_denotes [OF assms(1,2)] by blast
  with walk_denotes [of m b v] assms(3,4) show ?thesis by blast
qed

theorem benr_reads_encoding_witness:
  "\<exists>b. benr_init (str ''xd1:alee'') (length (str ''x'')) 7 = Some b \<and>
     walk (length (str ''d1:alee'')) (str ''xd1:alee'') b = Some (BDict [(str ''a'', BList [])])"
proof -
  have "str ''xd1:alee'' = str ''x'' @ encode (BDict [(str ''a'', BList [])]) @ []"
    "unat (7 :: size_t) = length (encode (BDict [(str ''a'', BList [])]) @ [])"
    unfolding enc_example by simp_all
  from benr_reads_encoding [OF this] show ?thesis
    unfolding enc_example by simp
qed

text \<open>A container that is cut short never ends: where the data stops behind complete items, without an end marker,
  both iterators go on returning 0 for ever.\<close>

lemma truncated_iteration_never_ends:
  assumes "length m < 2 ^ 64"
  shows "(at m (li_ctx i) (enc_vals vs) \<longrightarrow> read_all n (benr_list_iter_next m) i b = None) \<and>
    (at m (di_ctx d) (enc_items kvs) \<longrightarrow>
      read_all n (\<lambda>i kv. benr_dict_iter_next m i (fst kv) (snd kv)) d (k, v) = None)"
  using list_iterator.read_all_truncated [of m i vs n b] dict_iterator.read_all_truncated [of m d kvs n "(k, v)"] assms
  unfolding enc_items_concat enc_vals_concat dict_step_def by simp

text \<open>C28. When the calling loop ends, on any bytes: calling \<open>benr_list_iter_next\<close> or \<open>benr_dict_iter_next\<close> until the
  status is negative comes to an end exactly on the data \<open>item_ends\<close> accepts, where the calls reach an end
  marker or a nested container that is broken, and then within one call more than there are bytes. On the rest
  it never ends, among them every container whose data stops behind complete items, without an end marker.\<close>

theorem iteration_ends_iff:
  assumes "length m < 2 ^ 63"
  shows "(at m (li_ctx i) bs \<longrightarrow>
      ((\<exists>n. read_all n (benr_list_iter_next m) i b \<noteq> None) \<longleftrightarrow> item_ends list_item bs) \<and>
      (read_all (Suc (length bs)) (benr_list_iter_next m) i b \<noteq> None \<longleftrightarrow> item_ends list_item bs) \<and>
      (bs = enc_vals vs \<longrightarrow> \<not> item_ends list_item bs)) \<and>
    (at m (di_ctx d) bs \<longrightarrow>
      ((\<exists>n. read_all n (\<lambda>i kv. benr_dict_iter_next m i (fst kv) (snd kv)) d (k, v) \<noteq> None) \<longleftrightarrow> item_ends dict_item bs) \<and>
      (read_all (Suc (length bs)) (\<lambda>i kv. benr_dict_iter_next m i (fst kv) (snd kv)) d (k, v) \<noteq> None \<longleftrightarrow>
        item_ends dict_item bs) \<and>
      (bs = enc_items kvs \<longrightarrow> \<not> item_ends dict_item bs))"
proof -
  have m: "length m < 2 ^ 64" using assms by simp
  note cut = truncated_iteration_never_ends [OF m, of i vs _ b d kvs k v]
  note l = list_scan.read_all_ends_iff [of m i bs b, OF _ assms]
  note d = dict_scan.read_all_ends_iff [of m d bs "(k, v)", OF _ assms, unfolded dict_step_def]
  have "at m (li_ctx i) bs \<Longrightarrow> bs = enc_vals vs \<Longrightarrow> \<not> item_ends list_item bs"
    using l(1) cut by metis
  moreover have "at m (di_ctx d) bs \<Longrightarrow> bs = enc_items kvs \<Longrightarrow> \<not> item_ends dict_item bs"
    using d(1) cut by metis
  ultimately show ?thesis using l d by blast
qed

text \<open>A list that is broken in its second item, which nothing closes, and one that is cut off behind its first.\<close>

theorem iteration_ends_iff_witness:
  "read_all 8 (benr_list_iter_next (str ''1:ald1x'')) \<lparr>li_ctx = ctx_over (str ''1:ald1x'')\<rparr> BENR_NONE \<noteq> None \<and>
   (\<forall>n. read_all n (benr_list_iter_next (str ''1:a'')) \<lparr>li_ctx = ctx_over (str ''1:a'')\<rparr> BENR_NONE = None) \<and>
   (\<forall>n. read_all n (\<lambda>i kv. benr_dict_iter_next (str ''1:a'') i (fst kv) (snd kv)) \<lparr>di_ctx = ctx_over (str ''1:a'')\<rparr>
     (BENR_NONE, BENR_NONE) = None)"
proof -
  have l: "length (str ''1:ald1x'') = 7" "length (str ''1:a'') = 3" by simp_all
  have e: "item_ends list_item (str ''1:ald1x'')" "\<not> item_ends list_item (str ''1:a'')" "\<not> item_ends dict_item (str ''1:a'')"
    by code_simp+
  have at: "at (str ''1:ald1x'') (ctx_over (str ''1:ald1x'')) (str ''1:ald1x'')"
    "at (str ''1:a'') (ctx_over (str ''1:a'')) (str ''1:a'')"
    using ctx_over_at [of "str ''1:ald1x''"] ctx_over_at [of "str ''1:a''"] l by simp_all
  note p = iteration_ends_iff [of "str ''1:ald1x''" "\<lparr>li_ctx = ctx_over (str ''1:ald1x'')\<rparr>" "str ''1:ald1x''" BENR_NONE]
  note q = iteration_ends_iff [of "str ''1:a''" "\<lparr>li_ctx = ctx_over (str ''1:a'')\<rparr>" "str ''1:a''" BENR_NONE _ "\<lparr>di_ctx = ctx_over (str ''1:a'')\<rparr>"
    BENR_NONE BENR_NONE]
  have "read_all (Suc 7) (benr_list_iter_next (str ''1:ald1x'')) \<lparr>li_ctx = ctx_over (str ''1:ald1x'')\<rparr> BENR_NONE \<noteq> None"
    using p at(1) e(1) unfolding l by simp
  then show ?thesis using q at(2) e(2,3) unfolding l by (simp del: read_all.simps)
qed

text \<open>The end of a container is reported once: the call at the end marker returns -1 and keeps the
  output parameter, the next call returns 0 with \<open>BENR_NONE\<close>.\<close>

lemma end_is_reported_once:
  assumes "at m (li_ctx i) (chr CHR ''e'' # rest)"
  shows "\<exists>i'. benr_list_iter_next m i b = Some (- 1, i', b) \<and> benr_list_iter_next m i' b = Some (0, i', BENR_NONE)"
  using assms by (rule list_iterator.end_reported_once)

text \<open>C35. The length prefix of a string wraps at 64 bits: digits whose value is the length of the
  bytes behind the colon modulo \<open>2 ^ 64\<close> are accepted, and the string is those bytes.\<close>

theorem length_prefix_wraps:
  assumes "list_all isdigit ds" "ds \<noteq> []" "dec_val ds mod 2 ^ 64 = length s"
    "m = ds @ chr CHR '':'' # s @ rest" "length m < 2 ^ 64"
  shows "benr_next m (ctx_over m) = Some (BENR_STRING \<lparr>s_start = length ds + 1, s_len = of_nat (length s)\<rparr>,
    advance (ctx_over m) (length ds + 1 + length s))"
proof -
  have n: "unat (dec_acc 0 ds) = length s"
    using assms(1,3) by (simp add: dec_acc_dec_val unat_of_nat)
  have "lex_str m = (Tok_str s, length ds + 1 + length s)"
    using takeWhile_digits [OF assms(1) not_isdigit_colon, of "s @ rest"]
      dropWhile_digits [OF assms(1) not_isdigit_colon, of "s @ rest"]
    by (simp add: lex_str_def assms(4) n)
  moreover obtain d r where "ds = d # r" "isdigit d" using assms(1,2) by (cases ds) auto
  ultimately have "lex_tok m = (Tok_str s, length ds + 1 + length s)"
    using isdigit_not_marker [of d] assms(4) by simp
  from benr_next_at [OF ctx_over_at [OF assms(5)] this] show ?thesis by simp
qed

theorem length_prefix_wraps_witness:
  "benr_next (str ''18446744073709551617:a'') (ctx_over (str ''18446744073709551617:a'')) =
     Some (BENR_STRING \<lparr>s_start = 21, s_len = 1\<rparr>, \<lparr>ctx_start = 22, ctx_len = 0\<rparr>)"
  using length_prefix_wraps [of "str ''18446744073709551617''" "str ''a''" "str ''18446744073709551617:a''" "[]"]
  by (simp add: isdigit_def chr_def dec_val_def advance_def mk_ctx_def)

subsection \<open>The event parser\<close>

text \<open>C19. The event parser and the pull reader agree: from the same place in any bytes, \<open>benp_next\<close> returns
  the event for the value \<open>benr_next\<close> returns, and the contexts stay at the same place.\<close>

theorem benp_next_is_benr_next:
  "benp_next m (benp_init p n) =
     map_option (\<lambda>(b, c). (benp_of_benr b, benp_init (ctx_start c) (ctx_len c)))
       (benr_next m \<lparr>ctx_start = p, ctx_len = n\<rparr>)"
proof -
  have "benp_of_ctx c = benp_init (ctx_start c) (ctx_len c)" for c
    by (simp add: benp_of_ctx_def mk_benp_def benp_init_def)
  then show ?thesis
    using benp_next_benr [of m "\<lparr>ctx_start = p, ctx_len = n\<rparr>"] by simp
qed

text \<open>C20. The events of an encoded value are its markers and leaves in order, with the bytes of the
  strings, and then \<open>BENP_EV_DONE\<close> for every further call.\<close>

theorem benp_events_of_encoding:
  assumes "length (encode v) < 2 ^ 64"
  shows "\<exists>es. benp_events (length (toks v) + n) (encode v) (benp_init 0 (of_nat (length (encode v)))) = Some es \<and>
    map (ev_tok (encode v)) es = toks v @ replicate n Tok_none"
proof -
  let ?c = "ctx_over (encode v)"
  have at: "at (encode v) ?c (encode v @ [])" using ctx_over_at [OF assms] by simp
  have "at (encode v) (advance ?c (length (encode v))) []" using at_advance [OF at] .
  then have "benp_events n (encode v) (benp_of_ctx (advance ?c (length (encode v)))) = Some (replicate n BENP_EV_DONE)"
    by (rule benp_events_done)
  from lexesD [OF lexes_encode at this] show ?thesis
    by (simp add: benp_of_ctx_def mk_benp_def benp_init_def)
qed

theorem benp_events_of_encoding_witness:
  "\<exists>es. benp_events (length (toks (BDict [(str ''a'', BList [])])) + 1) (str ''d1:alee'')
       (benp_init 0 (of_nat (length (str ''d1:alee'')))) = Some es \<and>
     map (ev_tok (str ''d1:alee'')) es = toks (BDict [(str ''a'', BList [])]) @ replicate 1 Tok_none"
proof -
  have "length (encode (BDict [(str ''a'', BList [])])) < 2 ^ 64" unfolding enc_example by simp
  from benp_events_of_encoding [OF this, of 1] show ?thesis unfolding enc_example .
qed

text \<open>The four error events.\<close>

definition benp_is_error :: "benp_ev \<Rightarrow> bool" where
  "benp_is_error e \<longleftrightarrow> (case e of
     BENP_EV_ERROR_UNEXPECTED_EOF \<Rightarrow> True
   | BENP_EV_ERROR_UNEXPECTED_BYTE _ \<Rightarrow> True
   | BENP_EV_ERROR_STRING_TOO_LONG _ \<Rightarrow> True
   | BENP_EV_ERROR_UNEXPECTED_BYTE_IN_INT _ \<Rightarrow> True
   | _ \<Rightarrow> False)"

text \<open>An event that ends nothing takes a byte or more; \<open>BENP_EV_DONE\<close> and the errors leave the context as it was.\<close>

lemma benp_next_progress:
  assumes "in_benp m c"
  obtains e where "benp_next m c = Some (e, c)" "benp_is_error e \<or> e = BENP_EV_DONE"
  | e c' where "benp_next m c = Some (e, c')" "\<not> benp_is_error e" "e \<noteq> BENP_EV_DONE" "in_benp m c'"
      "unat (bp_len c') < unat (bp_len c)"
proof -
  obtain t k where t: "lex_tok (benp_view m c) = (t, k)" by fastforce
  let ?e = "tok_benp (bp_start c) (bp_len c) t k" and ?c = "mk_benp (bp_start c + k) (bp_len c - of_nat k)"
  have nx: "benp_next m c = Some (?e, ?c)" using assms t by (simp add: benp_next_lex Let_def)
  show thesis
  proof (cases "tok_stuck t")
    case True
    then have "k = 0" using lex_stuck [of "benp_view m c"] t by simp
    then have "?c = c" by (simp add: mk_benp_def)
    moreover have "benp_is_error ?e \<or> ?e = BENP_EV_DONE"
      using True by (cases t) (simp_all add: tok_stuck_def benp_is_error_def)
    ultimately show thesis using nx that(1) by simp
  next
    case False
    have "length (benp_view m c) = unat (bp_len c)" using assms by (simp add: length_view)
    then have k: "0 < k" "k \<le> unat (bp_len c)" using lex_tok_shorter [OF t False] by simp_all
    then have "k < 2 ^ 64" using unsigned_less [where ?'a = nat and w = "bp_len c"] by simp
    with k have n: "unat (bp_len c - of_nat k) = unat (bp_len c) - k"
      by (subst unat_sub) (auto simp: word_le_nat_alt unat_of_nat_u64)
    have "in_benp m ?c" using assms k n by (simp add: mk_benp_def inside_def)
    moreover have "unat (bp_len ?c) < unat (bp_len c)" using k n by (simp add: mk_benp_def)
    moreover have "\<not> benp_is_error ?e" "?e \<noteq> BENP_EV_DONE"
      using False by (cases t; simp add: tok_stuck_def benp_is_error_def)+
    ultimately show thesis using nx that(2) by blast
  qed
qed

lemma benp_events_repeat: "benp_next m c = Some (e, c) \<Longrightarrow> benp_events n m c = Some (replicate n e)"
  by (induction n) simp_all

text \<open>C37. Reading events comes to rest: on any bytes, after at most as many events as there are bytes, none of them
  \<open>BENP_EV_DONE\<close> or an error, the parser reports one and the same of these for every further call (the
  comments of \<open>benp.h\<close> promise for three of the four errors that the context is not advanced).\<close>

theorem benp_events_settle:
  assumes "in_benp m c"
  shows "\<exists>es e. length es \<le> unat (bp_len c) \<and> list_all (\<lambda>x. \<not> benp_is_error x \<and> x \<noteq> BENP_EV_DONE) es \<and>
    (benp_is_error e \<or> e = BENP_EV_DONE) \<and> (\<forall>n. benp_events (length es + n) m c = Some (es @ replicate n e))"
  using assms
proof (induction "unat (bp_len c)" arbitrary: c rule: less_induct)
  case less
  from less.prems show ?case
  proof (cases rule: benp_next_progress)
    case (1 e)
    then show ?thesis using benp_events_repeat [OF 1(1)] by (intro exI [of _ "[]"] exI [of _ e]) simp
  next
    case (2 e c')
    from less.hyps [OF 2(5,4)] obtain es x where es: "length es \<le> unat (bp_len c')"
        "list_all (\<lambda>x. \<not> benp_is_error x \<and> x \<noteq> BENP_EV_DONE) es" "benp_is_error x \<or> x = BENP_EV_DONE"
        "\<And>n. benp_events (length es + n) m c' = Some (es @ replicate n x)" by blast
    with 2 show ?thesis by (intro exI [of _ "e # es"] exI [of _ x]) simp
  qed
qed

theorem benp_events_settle_witness:
  "\<exists>es e. length es \<le> 3 \<and> (\<forall>n. benp_events (length es + n) (str ''dx1'') (benp_init 0 3) = Some (es @ replicate n e))"
proof -
  have "in_benp (str ''dx1'') (benp_init 0 3)" by (simp add: inside_def benp_init_def)
  from benp_events_settle [OF this] show ?thesis by (auto simp: benp_init_def)
qed

subsection \<open>The writers\<close>

text \<open>C21. Writing and reading back: a value written with the functions of \<open>ben.h\<close> into an empty array
  (strings without NUL bytes, of at most \<open>INT_MAX\<close> bytes) is read back by \<open>benr.c\<close>.\<close>

theorem ben_benr_roundtrip:
  assumes "darray_ok da" "da_items da d = []" "ints_ok v" "strings_ok v" "length (encode v) < 2 ^ 64"
  shows "\<exists>d' b. write_val da v d = Some d' \<and>
    benr_init (da_items da d') 0 (of_nat (length (da_items da d'))) = Some b \<and>
    walk (length (encode v)) (da_items da d') b = Some v"
proof -
  obtain d' where d': "write_val da v d = Some d'" "da_items da d' = encode v"
    using write_val_encode [OF assms(1,3,4), of d] assms(2) by auto
  obtain b where "benr_init (encode v) (length []) (of_nat (length (encode v))) = Some b" "denotes (encode v) b v"
    by (rule benr_init_denotes [of "encode v" "[]" v "[]" "of_nat (length (encode v))"])
       (use assms(5) in \<open>simp_all add: unat_of_nat_u64\<close>)
  with walk_denotes [of "encode v" b v] assms(3,5) d' show ?thesis by auto
qed

theorem ben_benr_roundtrip_witness:
  "\<exists>d' b. write_val list_darray (BList [BInt 3, BStr (str ''x'')]) [] = Some d' \<and>
     benr_init (da_items list_darray d') 0 (of_nat (length (da_items list_darray d'))) = Some b \<and>
     walk (length (encode (BList [BInt 3, BStr (str ''x'')]))) (da_items list_darray d') b =
       Some (BList [BInt 3, BStr (str ''x'')])"
proof (rule ben_benr_roundtrip [OF list_darray_ok])
  show "length (encode (BList [BInt 3, BStr (str ''x'')])) < 2 ^ 64"
    by (simp add: encode_containers enc_str_def enc_int_def dec_digits_1)
  show "strings_ok (BList [BInt 3, BStr (str ''x'')])"
    using NUL_str [of "''x''"] by (simp add: string_ok_def INT_MAX_def)
qed (simp_all add: list_darray_def)

text \<open>What \<open>ben_string\<close> writes, for bytes inside their object and a length of at most
  \<open>INT_MAX\<close>: the length and a colon, and then only the bytes in front of the first NUL. With a NUL
  in the bytes the text is shorter than its own prefix says.\<close>

lemma ben_string_stops_at_NUL:
  assumes "darray_ok da" "inside m p (unat n)" "unat n \<le> INT_MAX"
  shows "\<exists>d' s. ben_string da d m p n = Some d' \<and>
    da_items da d' = da_items da d @ dec_digits (unat n) @ chr CHR '':'' # s \<and>
    s = takeWhile (\<lambda>b. b \<noteq> 0) (view m p (unat n)) \<and>
    (length s = unat n \<longleftrightarrow> 0 \<notin> set (view m p (unat n)))"
proof -
  let ?v = "view m p (unat n)" and ?s = "takeWhile (\<lambda>b. b \<noteq> 0) (view m p (unat n))"
  have "length ?s = length ?v \<longleftrightarrow> 0 \<notin> set ?v"
    by (metis (mono_tags, lifting) no_NUL append_eq_conv_conj set_takeWhileD take_all_iff takeWhile_dropWhile_id order.refl)
  with assms(2) have "length ?s = unat n \<longleftrightarrow> 0 \<notin> set ?v" by (simp add: length_view)
  with ben_string_writes [OF assms, of d] show ?thesis by metis
qed

text \<open>\<open>ben_integer\<close> round trip: any \<open>long long\<close>, written and read back, is itself.\<close>

lemma ben_integer_roundtrip:
  assumes "darray_ok da" "da_items da d = []"
  shows "\<exists>b. benr_init (da_items da (ben_integer da d x)) 0 (of_nat (length (da_items da (ben_integer da d x)))) = Some b \<and>
    benr_as_int b y = (0, x)"
proof -
  let ?m = "encode (BInt (sint x))"
  have m: "da_items da (ben_integer da d x) = ?m"
    using assms by (simp add: ben_integer_enc)
  have "nat \<bar>sint x\<bar> \<le> 2 ^ 63"
    using sint_greater_eq [of x] sint_less [of x] by simp
  moreover have "length ?m \<le> nat \<bar>sint x\<bar> + 4"
    using length_dec_digits [of "nat \<bar>sint x\<bar>"] by (auto simp: enc_int_def abs_if)
  ultimately have len: "length ?m < 2 ^ 64" by simp
  obtain b where b: "benr_init ?m (length []) (of_nat (length ?m)) = Some b" "denotes ?m b (BInt (sint x))"
    by (rule benr_init_denotes [of ?m "[]" "BInt (sint x)" "[]" "of_nat (length ?m)"])
       (use len in \<open>simp_all add: unat_of_nat_u64 del: encode.simps\<close>)
  from b(2) have "b = BENR_INT x" by (cases b) simp_all
  with b(1) show ?thesis unfolding m by (simp add: benr_as_int_def del: encode.simps)
qed

end
