(* ===== verification/Krpc.thy ===== *)
theory Krpc
  imports Ben
begin

text \<open>
  The KRPC messages of \<open>bt_dht.c\<close>: the parser of incoming messages and the writers of pings and
  their responses. \<open>memeqstr\<close> is a function of the penny library, which is not part of the
  repository: it is an argument, with its documented behaviour as \<open>memeqstr_ok\<close>.
\<close>

subsection \<open>Data\<close>

record bt_node_id =
  ni_id :: bytes \<comment> \<open>\<open>char id[20]\<close>\<close>

definition id_ok :: "bt_node_id \<Rightarrow> bool" where
  "id_ok i \<longleftrightarrow> length (ni_id i) = 20"

datatype krpc_error = KE_GENERIC | KE_SERVER | KE_PROTOCOL | KE_UNK_METHOD

fun krpc_error_code :: "krpc_error \<Rightarrow> int" where
  "krpc_error_code KE_GENERIC = 201"
| "krpc_error_code KE_SERVER = 202"
| "krpc_error_code KE_PROTOCOL = 203"
| "krpc_error_code KE_UNK_METHOD = 204"

datatype krpc_query = KQ_NONE | KQ_PING | KQ_FIND_NODE | KQ_GET_PEERS | KQ_ANNOUNCE_PEER

datatype krpc_type = KT_NONE | KT_QUERY | KT_RESPONSE | KT_ERROR

record krpc_msg_error =
  ke_code :: u64
  ke_str :: ptr
  ke_len :: size_t

text \<open>The union \<open>args\<close> of a query.\<close>

datatype krpc_args =
    Args_unset
  | Q_find_node ptr size_t
  | R_find_node ptr size_t
  | Q_get_peers ptr
  | R_get_peers ptr size_t
  | Q_announce_peer bool ptr ptr size_t u16

record krpc_msg_query =
  kq_query :: krpc_query
  kq_id :: ptr
  kq_id_len :: size_t
  kq_args :: krpc_args

text \<open>The members of the last union stand side by side: the code writes \<open>query.query\<close> only, and
  reads neither.\<close>

record krpc_msg =
  km_type :: krpc_type
  km_trans_id :: ptr
  km_trans_id_len :: size_t
  km_error :: krpc_msg_error
  km_query :: krpc_msg_query

text \<open>The notable entries \<open>krpc_msg_parse\<close> collects.\<close>

record krpc_vals =
  v_a :: benr
  v_e :: benr
  v_q :: benr
  v_r :: benr
  v_t :: benr
  v_y :: benr
  v_v :: benr

definition krpc_vals_init :: krpc_vals where
  "krpc_vals_init = \<lparr>v_a = BENR_INIT_NONE, v_e = BENR_INIT_NONE, v_q = BENR_INIT_NONE,
     v_r = BENR_INIT_NONE, v_t = BENR_INIT_NONE, v_y = BENR_INIT_NONE, v_v = BENR_INIT_NONE\<rparr>"

text \<open>An outcome of code that may read outside an object.\<close>

datatype 'a outcome = Returned 'a | Undefined

subsection \<open>The library functions\<close>

definition memeqstr_ok :: "(bytes \<Rightarrow> ptr \<Rightarrow> size_t \<Rightarrow> string \<Rightarrow> bool option) \<Rightarrow> bool" where
  "memeqstr_ok memeqstr \<longleftrightarrow>
     (\<forall>m p n s. inside m p (unat n) \<longrightarrow> memeqstr m p n s = Some (view m p (unat n) = str s))"

definition memeqstr_ref :: "bytes \<Rightarrow> ptr \<Rightarrow> size_t \<Rightarrow> string \<Rightarrow> bool option" where
  "memeqstr_ref m p n s = do { b \<leftarrow> load_bytes m p (unat n); Some (b = str s) }"

lemma memeqstr_ref_ok: "memeqstr_ok memeqstr_ref"
  by (simp add: memeqstr_ok_def memeqstr_ref_def load_bytes_def)

text \<open>\<open>printf("%.*s", (int)len, start)\<close>: a negative precision counts as none given, so the string
  is read up to its NUL.\<close>

definition printf_int_s :: "bytes \<Rightarrow> size_t \<Rightarrow> ptr \<Rightarrow> bytes option" where
  "printf_int_s m len start =
     (let i = sint (ucast len :: 32 word) in
      if i < 0 then do { n \<leftarrow> strlen m start; printf_s m start (unat n) } else printf_s m start (nat i))"

subsection \<open>Parsing (bt_dht.c)\<close>

definition set_query :: "krpc_msg \<Rightarrow> krpc_query \<Rightarrow> krpc_msg" where
  "set_query msg q = msg\<lparr>km_query := (km_query msg)\<lparr>kq_query := q\<rparr>\<rparr>"

definition krpc_msg_parse_query ::
  "(bytes \<Rightarrow> ptr \<Rightarrow> size_t \<Rightarrow> string \<Rightarrow> bool option) \<Rightarrow> bytes \<Rightarrow> krpc_msg \<Rightarrow> benr \<Rightarrow> (int \<times> krpc_msg) option" where
  "krpc_msg_parse_query memeqstr m msg q =
     (let (r, s) = benr_as_string q \<lparr>s_start = 0, s_len = 0\<rparr> in
      if r < 0 then Some (- 1, msg)
      else do {
        ping \<leftarrow> memeqstr m (s_start s) (s_len s) ''ping'';
        if ping then Some (0, set_query msg KQ_PING)
        else do {
          find_node \<leftarrow> memeqstr m (s_start s) (s_len s) ''find_node'';
          if find_node then Some (0, set_query msg KQ_FIND_NODE)
          else do {
            get_peers \<leftarrow> memeqstr m (s_start s) (s_len s) ''get_peers'';
            if get_peers then Some (0, set_query msg KQ_GET_PEERS)
            else do {
              announce_peer \<leftarrow> memeqstr m (s_start s) (s_len s) ''announce_peer'';
              if announce_peer then Some (0, set_query msg KQ_ANNOUNCE_PEER)
              else do {
                _ \<leftarrow> printf_int_s m (s_len s) (s_start s);
                Some (- 1, msg)
              }
            }
          }
        }
      })"

definition krpc_parse_y :: "bytes \<Rightarrow> benr \<Rightarrow> krpc_type option" where
  "krpc_parse_y m y =
     (let (r, s) = benr_as_string y \<lparr>s_start = 0, s_len = 0\<rparr> in
      if r < 0 then Some KT_NONE
      else if s_len s \<noteq> 1 then Some KT_NONE
      else do {
        c \<leftarrow> load m (s_start s);
        Some (if c = chr CHR ''e'' then KT_ERROR
              else if c = chr CHR ''q'' then KT_QUERY
              else if c = chr CHR ''r'' then KT_RESPONSE
              else KT_NONE)
      })"

text \<open>The switch on the only byte of a key.\<close>

definition krpc_store :: "byte \<Rightarrow> benr \<Rightarrow> krpc_vals \<Rightarrow> krpc_vals" where
  "krpc_store c v vs =
     (if c = chr CHR ''a'' then vs\<lparr>v_a := v\<rparr>
      else if c = chr CHR ''e'' then vs\<lparr>v_e := v\<rparr>
      else if c = chr CHR ''q'' then vs\<lparr>v_q := v\<rparr>
      else if c = chr CHR ''r'' then vs\<lparr>v_r := v\<rparr>
      else if c = chr CHR ''t'' then vs\<lparr>v_t := v\<rparr>
      else if c = chr CHR ''y'' then vs\<lparr>v_y := v\<rparr>
      else if c = chr CHR ''v'' then vs\<lparr>v_v := v\<rparr>
      else vs)"

text \<open>The loop over the top level dictionary; \<open>None\<close> is a loop that never ends. \<open>k\<close> and \<open>v\<close> are
  fresh in every round and read only after they were set, so their initial value does not matter.
  The key that is printed is always read, whatever is done with the text.\<close>

definition krpc_key :: "bytes \<Rightarrow> benr_string \<Rightarrow> benr \<Rightarrow> krpc_vals \<Rightarrow> krpc_vals option" where
  "krpc_key m ks v vs =
     (if s_len ks = 1 then do { c \<leftarrow> load m (s_start ks); Some (krpc_store c v vs) }
      else do { _ \<leftarrow> printf_int_s m (s_len ks) (s_start ks); Some vs })"

partial_function (option) krpc_scan ::
  "bytes \<Rightarrow> benr_dict_iter \<Rightarrow> krpc_vals \<Rightarrow> krpc_vals outcome option" where
  "krpc_scan m top_di vs =
     (case benr_dict_iter_next m top_di BENR_NONE BENR_NONE of
        None \<Rightarrow> Some Undefined
      | Some (r, top_di, k, v) \<Rightarrow>
          if r < 0 then Some (Returned vs)
          else
            (let (r, ks) = benr_as_string k \<lparr>s_start = 0, s_len = 0\<rparr> in
             if r < 0 then krpc_scan m top_di vs
             else
               (case krpc_key m ks v vs of
                  None \<Rightarrow> Some Undefined
                | Some vs \<Rightarrow> krpc_scan m top_di vs)))"

definition krpc_finish ::
  "(bytes \<Rightarrow> ptr \<Rightarrow> size_t \<Rightarrow> string \<Rightarrow> bool option) \<Rightarrow> bytes \<Rightarrow> krpc_msg \<Rightarrow> krpc_vals \<Rightarrow> (int \<times> krpc_msg) option" where
  "krpc_finish memeqstr m msg vs = do {
     t \<leftarrow> krpc_parse_y m (v_y vs);
     let msg = msg\<lparr>km_type := t\<rparr>;
     if t = KT_NONE then Some (- 1, msg)
     else if t = KT_QUERY \<or> t = KT_RESPONSE then do {
       (r, msg) \<leftarrow> krpc_msg_parse_query memeqstr m msg (v_q vs);
       Some (if r < 0 then (r, msg) else (- 1, msg))
     }
     else Some (- 1, msg)
   }"

definition krpc_msg_parse ::
  "(bytes \<Rightarrow> ptr \<Rightarrow> size_t \<Rightarrow> string \<Rightarrow> bool option) \<Rightarrow> bytes \<Rightarrow> krpc_msg \<Rightarrow> ptr \<Rightarrow> size_t \<Rightarrow>
     (int \<times> krpc_msg) outcome option" where
  "krpc_msg_parse memeqstr m msg data data_len =
     (case benr_init m data data_len of
        None \<Rightarrow> Some Undefined
      | Some b \<Rightarrow>
          (let (r, top_d) = benr_as_dict b \<lparr>d_ctx = \<lparr>ctx_start = 0, ctx_len = 0\<rparr>\<rparr> in
           if r < 0 then Some (Returned (r, msg))
           else do {
             vs \<leftarrow> krpc_scan m (benr_dict_iter_of top_d) krpc_vals_init;
             Some (case vs of
                Undefined \<Rightarrow> Undefined
              | Returned vs \<Rightarrow>
                  (case krpc_finish memeqstr m msg vs of None \<Rightarrow> Undefined | Some out \<Rightarrow> Returned out))
           }))"

subsection \<open>Writing (bt_dht.c)\<close>

definition encode_id :: "'d darray_ops \<Rightarrow> 'd \<Rightarrow> bt_node_id \<Rightarrow> 'd option" where
  "encode_id da d i = ben_string da d (ni_id i) 0 20"

definition krpc_gen_ping :: "'d darray_ops \<Rightarrow> 'd \<Rightarrow> bt_node_id \<Rightarrow> bytes \<Rightarrow> ptr \<Rightarrow> size_t \<Rightarrow> 'd option" where
  "krpc_gen_ping da d i m msg_id msg_id_len = do {
     d \<leftarrow> Some (ben_dict_begin da d);
     d \<leftarrow> ben_string_c da d (literal ''a'') 0;
     d \<leftarrow> Some (ben_dict_begin da d);
     d \<leftarrow> ben_string_c da d (literal ''id'') 0;
     d \<leftarrow> encode_id da d i;
     d \<leftarrow> Some (ben_dict_end da d);
     d \<leftarrow> ben_string_c da d (literal ''q'') 0;
     d \<leftarrow> ben_string_c da d (literal ''ping'') 0;
     d \<leftarrow> ben_string_c da d (literal ''t'') 0;
     d \<leftarrow> ben_string da d m msg_id msg_id_len;
     d \<leftarrow> ben_string_c da d (literal ''y'') 0;
     d \<leftarrow> ben_string_c da d (literal ''q'') 0;
     Some (ben_dict_end da d)
   }"

definition krpc_gen_ping_response ::
  "'d darray_ops \<Rightarrow> 'd \<Rightarrow> bt_node_id \<Rightarrow> bytes \<Rightarrow> ptr \<Rightarrow> size_t \<Rightarrow> 'd option" where
  "krpc_gen_ping_response da d my_id m msg_id msg_id_len = do {
     d \<leftarrow> Some (ben_dict_begin da d);
     d \<leftarrow> ben_string_c da d (literal ''r'') 0;
     d \<leftarrow> Some (ben_dict_begin da d);
     d \<leftarrow> ben_string_c da d (literal ''id'') 0;
     d \<leftarrow> encode_id da d my_id;
     d \<leftarrow> Some (ben_dict_end da d);
     d \<leftarrow> ben_string_c da d (literal ''t'') 0;
     d \<leftarrow> ben_string da d m msg_id msg_id_len;
     d \<leftarrow> ben_string_c da d (literal ''y'') 0;
     d \<leftarrow> ben_string_c da d (literal ''r'') 0;
     Some (ben_dict_end da d)
   }"

end
