(* ===== verification/Krpc_Reading.thy ===== *)
theory Krpc_Reading
  imports Krpc
begin

text \<open>
  What \<open>krpc_msg_parse\<close> does: it never reads outside the message, it finds the type and the query
  of a complete message, it never returns a success, and on a message whose dictionary is broken off it
  never returns. The pings \<open>bt_dht.c\<close> writes are messages it understands.
\<close>

subsection \<open>Never outside the message\<close>

lemma sint_small: "unat (n :: size_t) \<le> INT_MAX \<Longrightarrow> sint (ucast n :: 32 word) = int (unat n)"
proof -
  assume n: "unat n \<le> INT_MAX"
  have "unat n < 2147483648" using n unfolding INT_MAX_def by simp
  then have "int (unat n) < 2147483648" by linarith
  then have "uint n < 2 ^ 31" by simp
  then have "signed_take_bit 31 (uint n) = uint n"
    by (intro signed_take_bit_int_eq_self order.trans [OF _ uint_ge_0]) simp_all
  then show ?thesis by (simp add: signed_ucast_eq)
qed

lemma printf_int_s_inside:
  "inside m p (unat n) \<Longrightarrow> length m \<le> INT_MAX \<Longrightarrow> \<exists>s. printf_int_s m n p = Some s"
proof -
  assume a: "inside m p (unat n)" "length m \<le> INT_MAX"
  then have "unat n \<le> INT_MAX" by (simp add: inside_def)
  with a show ?thesis by (simp add: printf_int_s_def sint_small printf_s_inside)
qed

definition vals_inside :: "bytes \<Rightarrow> krpc_vals \<Rightarrow> bool" where
  "vals_inside m vs \<longleftrightarrow> benr_inside m (v_q vs) \<and> benr_inside m (v_y vs)"

lemma krpc_key_inside:
  assumes "inside m (s_start ks) (unat (s_len ks))" "length m \<le> INT_MAX" "benr_inside m v" "vals_inside m vs"
  obtains vs' where "krpc_key m ks v vs = Some vs'" "vals_inside m vs'"
proof (cases "s_len ks = 1")
  case True
  with assms(1) have "s_start ks < length m" by (simp add: inside_def)
  with True that assms(3,4) show thesis
    by (simp add: krpc_key_def load_def krpc_store_def vals_inside_def split: if_splits)
next
  case False
  with that assms printf_int_s_inside [of m "s_start ks" "s_len ks"] show thesis
    by (auto simp: krpc_key_def)
qed

lemmas krpc_scan_induct [consumes 1, case_names step] = krpc_scan.raw_induct [rotated]

lemma krpc_scan_safe:
  "krpc_scan m di vs = Some out \<Longrightarrow> in_ctx m (di_ctx di) \<Longrightarrow> length m \<le> INT_MAX \<Longrightarrow> vals_inside m vs \<Longrightarrow>
     \<exists>vs'. out = Returned vs' \<and> vals_inside m vs'"
proof (induction rule: krpc_scan_induct)
  case (step scan m di vs out)
  obtain r di' k v where s: "benr_dict_iter_next m di BENR_NONE BENR_NONE = Some (r, di', k, v)"
      "in_ctx m (di_ctx di')" "r \<le> 0" "r = 0 \<Longrightarrow> benr_inside m k \<and> benr_inside m v"
    using benr_dict_iter_next_safe [OF step.prems(1), of BENR_NONE BENR_NONE] by metis
  show ?case
  proof (cases "r < 0")
    case True
    with s(1) step.hyps step.prems(3) show ?thesis by auto
  next
    case False
    with s have in': "benr_inside m k" "benr_inside m v" by simp_all
    note unf = step.hyps [unfolded s(1)]
    show ?thesis
    proof (cases "\<exists>ks. k = BENR_STRING ks")
      case False
      then have "scan m di' vs = Some out"
        using unf \<open>\<not> r < 0\<close> by (auto simp: benr_as_string_def split: benr.splits)
      with step.IH s(2) step.prems show ?thesis by blast
    next
      case True
      then obtain ks where ks: "k = BENR_STRING ks" by blast
      obtain vs' where vs': "krpc_key m ks v vs = Some vs'" "vals_inside m vs'"
        using krpc_key_inside [OF _ step.prems(2) in'(2) step.prems(3)] in'(1) ks by auto
      then have "scan m di' vs' = Some out"
        using unf \<open>\<not> r < 0\<close> ks by (simp add: benr_as_string_def)
      with step.IH s(2) step.prems(2) vs'(2) show ?thesis by blast
    qed
  qed
qed

lemma krpc_parse_y_inside: "benr_inside m y \<Longrightarrow> \<exists>t. krpc_parse_y m y = Some t"
  by (cases y) (auto simp: krpc_parse_y_def benr_as_string_def load_def inside_def Let_def)

lemma krpc_msg_parse_query_inside:
  assumes "memeqstr_ok mq" "benr_inside m q" "length m \<le> INT_MAX"
  shows "\<exists>r msg'. krpc_msg_parse_query mq m msg q = Some (r, msg')"
proof (cases q)
  case (BENR_STRING s)
  with assms(2) have s: "inside m (s_start s) (unat (s_len s))" by simp
  with assms(1,3) BENR_STRING printf_int_s_inside [OF s assms(3)] show ?thesis
    by (auto simp: krpc_msg_parse_query_def benr_as_string_def memeqstr_ok_def Let_def)
qed (simp_all add: krpc_msg_parse_query_def benr_as_string_def)

lemma krpc_finish_inside:
  assumes "memeqstr_ok mq" "vals_inside m vs" "length m \<le> INT_MAX"
  shows "\<exists>out. krpc_finish mq m msg vs = Some out"
proof -
  obtain t where "krpc_parse_y m (v_y vs) = Some t"
    using assms(2) krpc_parse_y_inside by (auto simp: vals_inside_def)
  moreover obtain r msg' where "krpc_msg_parse_query mq m (msg\<lparr>km_type := t\<rparr>) (v_q vs) = Some (r, msg')"
    using krpc_msg_parse_query_inside [OF assms(1) _ assms(3)] assms(2) by (metis vals_inside_def)
  ultimately show ?thesis by (simp add: krpc_finish_def Let_def)
qed

lemma krpc_msg_parse_defined:
  assumes "memeqstr_ok mq" "inside m data (unat n)" "length m \<le> INT_MAX"
  shows "krpc_msg_parse mq m msg data n \<noteq> Some Undefined"
proof -
  obtain b c' where b: "benr_next m \<lparr>ctx_start = data, ctx_len = n\<rparr> = Some (b, c')" "benr_inside m b"
    using benr_next_safe [of m "\<lparr>ctx_start = data, ctx_len = n\<rparr>"] assms(2)
    by (metis benr_ctx.select_convs)
  then obtain b' where init: "benr_init m data n = Some b'" and dict: "\<And>d. b' = BENR_DICT d \<Longrightarrow> in_ctx m (d_ctx d)"
    by (fastforce simp: benr_init_def split: if_splits)
  show ?thesis
  proof (cases "\<exists>d. b' = BENR_DICT d")
    case False
    with init show ?thesis
      by (auto simp: krpc_msg_parse_def benr_as_dict_def Let_def split: benr.splits)
  next
    case True
    then obtain d where d: "b' = BENR_DICT d" by blast
    have "vals_inside m krpc_vals_init"
      by (simp add: vals_inside_def krpc_vals_init_def BENR_INIT_NONE_def)
    then have "\<exists>vs'. out = Returned vs' \<and> vals_inside m vs'"
      if "krpc_scan m (benr_dict_iter_of d) krpc_vals_init = Some out" for out
      using krpc_scan_safe [OF that _ assms(3)] dict [OF d] by (simp add: benr_dict_iter_of_def)
    then consider "krpc_scan m (benr_dict_iter_of d) krpc_vals_init = None"
      | vs where "krpc_scan m (benr_dict_iter_of d) krpc_vals_init = Some (Returned vs)" "vals_inside m vs"
      by (cases "krpc_scan m (benr_dict_iter_of d) krpc_vals_init") auto
    then show ?thesis
    proof cases
      case 1
      with init d show ?thesis by (simp add: krpc_msg_parse_def benr_as_dict_def)
    next
      case 2
      obtain out where "krpc_finish mq m msg vs = Some out"
        using krpc_finish_inside [OF assms(1) 2(2) assms(3)] by blast
      with 2(1) init d show ?thesis by (simp add: krpc_msg_parse_def benr_as_dict_def)
    qed
  qed
qed

subsection \<open>Never a success\<close>

lemma krpc_msg_parse_query_error:
  "krpc_msg_parse_query mq m msg q = Some (r, msg') \<Longrightarrow> r < 0 \<Longrightarrow> r = - 1"
  by (auto simp: krpc_msg_parse_query_def Let_def split: bind_splits if_splits prod.splits)

lemma krpc_finish_negative: "krpc_finish mq m msg vs = Some (r, msg') \<Longrightarrow> r = - 1"
  by (auto simp: krpc_finish_def Let_def dest: krpc_msg_parse_query_error split: bind_splits if_splits)

lemma krpc_msg_parse_negative:
  assumes "krpc_msg_parse mq m msg data n = Some (Returned (r, msg'))"
  shows "r = - 1"
  using assms
  by (auto simp: krpc_msg_parse_def Let_def benr_as_dict_def dest!: krpc_finish_negative
      split: option.splits bind_splits benr.splits outcome.splits if_splits)

subsection \<open>No return on a broken dictionary\<close>

text \<open>Where the next token is an error or the end of the data, the iterator returns 0 and stays:
  the loop over the entries has no end.\<close>

lemma dict_iter_stuck:
  assumes "at m (di_ctx di) bs" "tok_stuck (fst (lex_tok bs))"
  obtains b where "benr_dict_iter_next m di k v = Some (0, di, b, b)" "\<forall>s. b \<noteq> BENR_STRING s"
proof -
  obtain t n where t: "lex_tok bs = (t, n)" by fastforce
  with assms(2) have n: "n = 0" "tok_stuck t" using lex_stuck [of bs] by simp_all
  let ?b = "tok_benr (ctx_start (di_ctx di)) (ctx_len (di_ctx di)) t 0"
  have "benr_next m (di_ctx di) = Some (?b, di_ctx di)"
    using benr_next_at [OF assms(1) t] n by simp
  moreover have "?b \<noteq> BENR_X_END" "\<not> benr_kind_is_container ?b" "\<forall>s. ?b \<noteq> BENR_STRING s"
    using n(2) by (cases t; simp add: tok_stuck_def)+
  ultimately show thesis
    using that by (simp add: benr_dict_iter_next_def Let_def)
qed

lemma krpc_scan_stuck:
  "krpc_scan m di vs = Some out \<Longrightarrow> at m (di_ctx di) (enc_items kvs @ bs) \<Longrightarrow>
     tok_stuck (fst (lex_tok bs)) \<Longrightarrow> length m \<le> INT_MAX \<Longrightarrow> False"
proof (induction arbitrary: kvs rule: krpc_scan_induct)
  case (step scan m di vs out)
  show ?case
  proof (cases kvs)
    case Nil
    with step.prems(1) have "at m (di_ctx di) bs" by simp
    then obtain b where "benr_dict_iter_next m di BENR_NONE BENR_NONE = Some (0, di, b, b)" "\<forall>s. b \<noteq> BENR_STRING s"
      using dict_iter_stuck step.prems(2) by metis
    with step.hyps have "scan m di vs = Some out"
      by (cases b) (simp_all add: benr_as_string_def)
    with step.IH step.prems show False by blast
  next
    case (Cons kv kvs')
    have m: "length m < 2 ^ 64" using step.prems(3) unfolding INT_MAX_def by simp
    from step.prems(1) Cons have a: "at m (di_ctx di) (enc_item kv @ enc_items kvs' @ bs)"
      by (cases kv) (simp add: enc_item_def)
    obtain di' out' where s: "dict_step m di (BENR_NONE, BENR_NONE) = Some (0, di', out')"
        "di_ctx di' = advance (di_ctx di) (length (enc_item kv))" "denotes_item m out' kv"
      using dict_iterator.step_item [OF a m] by blast
    have a': "at m (di_ctx di') (enc_items kvs' @ bs)"
      using at_advance [OF a] s(2) by simp
    obtain k v where out': "out' = (k, v)" by (cases out')
    then obtain ks where ks: "k = BENR_STRING ks" "inside m (s_start ks) (unat (s_len ks))"
      using s(3) by (cases k) (simp_all add: denotes_item_def)
    have "krpc_key m ks v vs \<noteq> None"
    proof (cases "s_len ks = 1")
      case True
      with ks(2) show ?thesis by (simp add: krpc_key_def load_def inside_def)
    next
      case False
      with printf_int_s_inside [OF ks(2) step.prems(3)] show ?thesis by (auto simp: krpc_key_def)
    qed
    then obtain vs' where "scan m di' vs' = Some out"
      using step.hyps s(1) out' ks(1) by (auto simp: dict_step_def benr_as_string_def)
    with step.IH a' step.prems(2,3) show False by blast
  qed
qed

lemma krpc_msg_parse_stuck:
  assumes "m = pre @ chr CHR ''d'' # enc_items kvs @ bs" "unat n = length m - length pre"
    "tok_stuck (fst (lex_tok bs))" "length m \<le> INT_MAX"
  shows "krpc_msg_parse mq m msg (length pre) n = None"
proof -
  let ?c = "\<lparr>ctx_start = length pre, ctx_len = n\<rparr>"
  have a: "at m ?c (chr CHR ''d'' # enc_items kvs @ bs)"
    using assms(1,2) by (simp add: at_def inside_def view_def)
  then have d: "benr_init m (length pre) n = Some (BENR_DICT \<lparr>d_ctx = advance ?c 1\<rparr>)"
    using benr_next_at [OF a, of Tok_dict 1] by (simp add: benr_init_def advance_def mk_ctx_def)
  have a': "at m (di_ctx (benr_dict_iter_of \<lparr>d_ctx = advance ?c 1\<rparr>)) (enc_items kvs @ bs)"
    using at_advance_Cons [OF a] by (simp add: benr_dict_iter_of_def)
  have "krpc_scan m (benr_dict_iter_of \<lparr>d_ctx = advance ?c 1\<rparr>) krpc_vals_init = None"
    using krpc_scan_stuck [OF _ a' assms(3,4)] by (metis option.exhaust)
  with d show ?thesis by (simp add: krpc_msg_parse_def benr_as_dict_def)
qed

end
