(* ===== verification/Krpc_Termination.thy ===== *)
theory Krpc_Termination
  imports Krpc_Reading Benr_Scan
begin

text \<open>
  When \<open>krpc_msg_parse\<close> returns: on any bytes, exactly when the iteration over the top level dictionary comes
  to an end (or there is no dictionary), and then with -1.
\<close>

lemma krpc_scan_diverges:
  "krpc_scan m di vs = Some out \<Longrightarrow> at m (di_ctx di) bs \<Longrightarrow> \<not> dict_ends bs \<Longrightarrow> length m \<le> INT_MAX \<Longrightarrow>
     vals_inside m vs \<Longrightarrow> False"
proof (induction arbitrary: bs rule: krpc_scan_induct)
  case (step scan m di vs out)
  have m: "length m < 2 ^ 63" using step.prems(3) unfolding INT_MAX_def by simp
  from step.prems(1) m show ?case
  proof (cases rule: benr_dict_iter_next_ref [where k = BENR_NONE and v = BENR_NONE])
    case (stops r di')
    with dict_ends_None step.prems(2) show ?thesis by blast
  next
    case (item n di' k v)
    have d: "\<not> dict_ends (drop n bs)"
      using dict_ends_step [OF item(1)] step.prems(2) by (cases "n = 0") auto
    show ?thesis
    proof (cases "\<exists>ks. k = BENR_STRING ks")
      case False
      with step.hyps item(2) have "scan m di' vs = Some out"
        by (auto simp: benr_as_string_def split: benr.splits)
      with step.IH item(3) d step.prems(3,4) show ?thesis by blast
    next
      case True
      then obtain ks where ks: "k = BENR_STRING ks" by blast
      obtain vs' where vs': "krpc_key m ks v vs = Some vs'" "vals_inside m vs'"
        using krpc_key_inside [OF _ step.prems(3) item(5) step.prems(4)] item(4) ks by auto
      with step.hyps item(2) ks have "scan m di' vs' = Some out"
        by (simp add: benr_as_string_def)
      with step.IH item(3) d step.prems(3) vs'(2) show ?thesis by blast
    qed
  qed
qed

lemma krpc_scan_returns:
  "dict_ends bs \<Longrightarrow> at m (di_ctx di) bs \<Longrightarrow> length m \<le> INT_MAX \<Longrightarrow> vals_inside m vs \<Longrightarrow>
     \<exists>vs'. krpc_scan m di vs = Some (Returned vs') \<and> vals_inside m vs'"
proof (induction dict_item bs arbitrary: di vs rule: item_ends.induct)
  case (1 bs)
  have m: "length m < 2 ^ 63" using "1.prems"(3) unfolding INT_MAX_def by simp
  from "1.prems"(2) m show ?case
  proof (cases rule: benr_dict_iter_next_ref [where k = BENR_NONE and v = BENR_NONE])
    case (stops r di')
    with "1.prems"(4) show ?thesis by (subst krpc_scan.simps) simp
  next
    case (item n di' k v)
    have n: "n \<noteq> 0" using dict_ends_0 [of bs] item(1) "1.prems"(1) by auto
    then have bs: "bs \<noteq> []" using item(1) dict_item_Nil by auto
    have d: "dict_ends (drop n bs)" using dict_ends_step [OF item(1) n] "1.prems"(1) by simp
    have "\<not> (n = 0 \<or> bs = [])" using n bs by simp
    note IH = "1.hyps" [OF item(1) this d item(3) "1.prems"(3)]
    show ?thesis
    proof (cases "\<exists>ks. k = BENR_STRING ks")
      case False
      with item(2) have "krpc_scan m di vs = krpc_scan m di' vs"
        by (subst krpc_scan.simps) (auto simp: benr_as_string_def split: benr.splits)
      with IH "1.prems"(4) show ?thesis by simp
    next
      case True
      then obtain ks where ks: "k = BENR_STRING ks" by blast
      obtain vs' where vs': "krpc_key m ks v vs = Some vs'" "vals_inside m vs'"
        using krpc_key_inside [OF _ "1.prems"(3) item(5) "1.prems"(4)] item(4) ks by auto
      with item(2) ks have "krpc_scan m di vs = krpc_scan m di' vs'"
        by (subst krpc_scan.simps) (simp add: benr_as_string_def)
      with IH vs'(2) show ?thesis by simp
    qed
  qed
qed

text \<open>The messages on which the parser returns: no dictionary, or one on which the iteration ends.\<close>

definition krpc_returns :: "bytes \<Rightarrow> bool" where
  "krpc_returns bs = (case bs of [] \<Rightarrow> True | b # r \<Rightarrow> b = chr CHR ''d'' \<longrightarrow> dict_ends r)"

lemma lex_tok_dict: "lex_tok bs = (Tok_dict, k) \<longleftrightarrow> (\<exists>r. bs = chr CHR ''d'' # r) \<and> k = 1"
proof -
  have "lex_int s off r \<noteq> (Tok_dict, j)" "lex_str r \<noteq> (Tok_dict, j)" for s off r j
    by (auto simp: lex_int_def lex_str_def Let_def split: list.splits)
  then show ?thesis
    by (cases bs rule: lex_tok.cases) (auto simp: chr_def split: list.splits)
qed

lemma krpc_msg_parse_terminates:
  assumes mq: "memeqstr_ok mq" and data: "inside m data (unat n)" and m: "length m \<le> INT_MAX"
  shows "if krpc_returns (view m data (unat n)) then \<exists>msg'. krpc_msg_parse mq m msg data n = Some (Returned (- 1, msg'))
    else krpc_msg_parse mq m msg data n = None"
proof -
  let ?c = "\<lparr>ctx_start = data, ctx_len = n\<rparr>" and ?bs = "view m data (unat n)"
  have at: "at m ?c ?bs" using data by (simp add: at_def)
  obtain t k where t: "lex_tok ?bs = (t, k)" by fastforce
  note nx = benr_next_at [OF at t]
  show ?thesis
  proof (cases "t = Tok_dict")
    case False
    then have r: "krpc_returns ?bs" using lex_tok_dict [of ?bs k] t by (auto simp: krpc_returns_def split: list.splits)
    have "\<forall>d. tok_benr data n t k \<noteq> BENR_DICT d" using False by (cases t) simp_all
    then have "krpc_msg_parse mq m msg data n = Some (Returned (- 1, msg))"
      using nx by (auto simp: krpc_msg_parse_def benr_init_def benr_as_dict_def split: benr.splits)
    with r show ?thesis by simp
  next
    case True
    with t lex_tok_dict [of ?bs k] obtain r where r: "?bs = chr CHR ''d'' # r" "k = 1" by auto
    let ?d = "\<lparr>d_ctx = advance ?c 1\<rparr>"
    have init: "benr_init m data n = Some (BENR_DICT ?d)"
      using nx True r(2) by (simp add: benr_init_def advance_def mk_ctx_def)
    have at': "at m (di_ctx (benr_dict_iter_of ?d)) r"
      using at_advance_Cons [of m ?c _ r] at r(1) by (simp add: benr_dict_iter_of_def)
    have vals: "vals_inside m krpc_vals_init"
      by (simp add: vals_inside_def krpc_vals_init_def BENR_INIT_NONE_def)
    have ret: "krpc_returns ?bs \<longleftrightarrow> dict_ends r" using r(1) by (simp add: krpc_returns_def)
    show ?thesis
    proof (cases "dict_ends r")
      case False
      have "krpc_scan m (benr_dict_iter_of ?d) krpc_vals_init = None"
        using krpc_scan_diverges [OF _ at' False m vals] by (metis option.exhaust)
      then have "krpc_msg_parse mq m msg data n = None"
        using init by (simp add: krpc_msg_parse_def benr_as_dict_def)
      with False ret show ?thesis by simp
    next
      case True
      obtain vs where vs: "krpc_scan m (benr_dict_iter_of ?d) krpc_vals_init = Some (Returned vs)" "vals_inside m vs"
        using krpc_scan_returns [OF True at' m vals] by blast
      obtain out msg' where fin: "krpc_finish mq m msg vs = Some (out, msg')"
        using krpc_finish_inside [OF mq vs(2) m, of msg] by auto
      from krpc_finish_negative [OF fin] fin vs(1) init have "krpc_msg_parse mq m msg data n = Some (Returned (- 1, msg'))"
        by (simp add: krpc_msg_parse_def benr_as_dict_def)
      with True ret show ?thesis by simp
    qed
  qed
qed

end
