(* ===== verification/Krpc_Meaning.thy ===== *)
theory Krpc_Meaning
  imports Krpc_Reading
begin

text \<open>
  What \<open>krpc_msg_parse\<close> makes of a complete message, stated over bencoded values: the last entry
  \<open>y\<close> gives the type, the last entry \<open>q\<close> the query. The writers of \<open>bt_dht.c\<close> write encoded
  dictionaries, so the theorem applies to the messages the program sends.
\<close>

subsection \<open>The meaning of a message\<close>

definition last_val :: "(bytes \<times> bval) list \<Rightarrow> bytes \<Rightarrow> bval option" where
  "last_val kvs k = map_of (rev kvs) k"

fun msg_type :: "bval option \<Rightarrow> krpc_type" where
  "msg_type (Some (BStr s)) =
     (if s = str ''e'' then KT_ERROR else if s = str ''q'' then KT_QUERY
      else if s = str ''r'' then KT_RESPONSE else KT_NONE)"
| "msg_type _ = KT_NONE"

fun msg_query :: "bval option \<Rightarrow> krpc_query option" where
  "msg_query (Some (BStr s)) =
     (if s = str ''ping'' then Some KQ_PING else if s = str ''find_node'' then Some KQ_FIND_NODE
      else if s = str ''get_peers'' then Some KQ_GET_PEERS
      else if s = str ''announce_peer'' then Some KQ_ANNOUNCE_PEER else None)"
| "msg_query _ = None"

definition krpc_meaning :: "krpc_msg \<Rightarrow> (bytes \<times> bval) list \<Rightarrow> krpc_msg" where
  "krpc_meaning msg kvs =
     (let t = msg_type (last_val kvs (str ''y'')); msg = msg\<lparr>km_type := t\<rparr> in
      if t = KT_QUERY \<or> t = KT_RESPONSE then
        (case msg_query (last_val kvs (str ''q'')) of None \<Rightarrow> msg | Some q \<Rightarrow> set_query msg q)
      else msg)"

lemma last_val_Nil: "last_val [] k = None"
  by (simp add: last_val_def)

lemma last_val_snoc: "last_val (kvs @ [(k, v)]) k' = (if k' = k then Some v else last_val kvs k')"
  by (simp add: last_val_def)

definition denotes_opt :: "bytes \<Rightarrow> benr \<Rightarrow> bval option \<Rightarrow> bool" where
  "denotes_opt m b v = (case v of None \<Rightarrow> b = BENR_NONE | Some v \<Rightarrow> denotes m b v)"

definition vals_for :: "bytes \<Rightarrow> krpc_vals \<Rightarrow> (bytes \<times> bval) list \<Rightarrow> bool" where
  "vals_for m vs kvs \<longleftrightarrow> denotes_opt m (v_y vs) (last_val kvs (str ''y'')) \<and>
     denotes_opt m (v_q vs) (last_val kvs (str ''q''))"

lemma denotes_str:
  "denotes m b (BStr t) \<Longrightarrow> \<exists>s. b = BENR_STRING s \<and> inside m (s_start s) (unat (s_len s)) \<and> view m (s_start s) (unat (s_len s)) = t"
  by (cases b) simp_all

lemma denotes_not_str: "denotes m b v \<Longrightarrow> \<forall>t. v \<noteq> BStr t \<Longrightarrow> b \<noteq> BENR_STRING s"
  by (cases b; cases v) simp_all

lemma denotes_opt_not_str: "denotes_opt m b v \<Longrightarrow> \<forall>t. v \<noteq> Some (BStr t) \<Longrightarrow> fst (benr_as_string b s) = - 1"
  by (cases v; cases b) (auto simp: denotes_opt_def benr_as_string_def dest: denotes_not_str)

lemma view_one: "inside m p (Suc 0) \<Longrightarrow> view m p (Suc 0) = [m ! p] \<and> p < length m"
  by (simp add: inside_def view_Suc view_0)

lemma one_byte: "s_len s = 1 \<longleftrightarrow> length (view m (s_start s) (unat (s_len s))) = 1"
  if "inside m (s_start s) (unat (s_len s))"
  using that by (simp add: length_view) (simp add: word_unat_eq_iff)

lemma parse_y_meaning: "denotes_opt m y v \<Longrightarrow> krpc_parse_y m y = Some (msg_type v)"
proof (cases "\<exists>t. v = Some (BStr t)")
  case False
  assume y: "denotes_opt m y v"
  with False have "benr_as_string y \<lparr>s_start = 0, s_len = 0\<rparr> = (- 1, \<lparr>s_start = 0, s_len = 0\<rparr>)"
    using denotes_opt_not_str [OF y] by (cases y) (auto simp: benr_as_string_def)
  moreover have "msg_type v = KT_NONE"
    using False by (cases v rule: msg_type.cases) auto
  ultimately show ?thesis by (simp add: krpc_parse_y_def)
next
  case True
  assume y: "denotes_opt m y v"
  from True obtain t where t: "v = Some (BStr t)" by blast
  with y have "denotes m y (BStr t)" by (simp add: denotes_opt_def)
  from denotes_str [OF this] obtain s where s: "y = BENR_STRING s" "inside m (s_start s) (unat (s_len s))"
      "view m (s_start s) (unat (s_len s)) = t" by blast
  show ?thesis
  proof (cases "s_len s = 1")
    case True
    with s have "t = [m ! s_start s]" "s_start s < length m"
      using view_one [of m "s_start s"] by auto
    with s t True show ?thesis
      by (simp add: krpc_parse_y_def benr_as_string_def load_def)
  next
    case False
    with s(2,3) have "length t \<noteq> 1" using one_byte by blast
    then have "t \<noteq> str [c]" for c by auto
    with s t False show ?thesis
      by (simp add: krpc_parse_y_def benr_as_string_def)
  qed
qed

lemma parse_query_meaning:
  assumes "memeqstr_ok mq" "length m \<le> INT_MAX" "denotes_opt m q v"
  shows "krpc_msg_parse_query mq m msg q =
    Some (case msg_query v of None \<Rightarrow> (- 1, msg) | Some k \<Rightarrow> (0, set_query msg k))"
proof (cases "\<exists>t. v = Some (BStr t)")
  case False
  then have "benr_as_string q \<lparr>s_start = 0, s_len = 0\<rparr> = (- 1, \<lparr>s_start = 0, s_len = 0\<rparr>)"
    using denotes_opt_not_str [OF assms(3)] by (cases q) (auto simp: benr_as_string_def)
  moreover have "msg_query v = None"
    using False by (cases v rule: msg_query.cases) auto
  ultimately show ?thesis by (simp add: krpc_msg_parse_query_def)
next
  case True
  then obtain t where t: "v = Some (BStr t)" by blast
  with assms(3) have "denotes m q (BStr t)" by (simp add: denotes_opt_def)
  from denotes_str [OF this] obtain s where s: "q = BENR_STRING s" "inside m (s_start s) (unat (s_len s))"
      "view m (s_start s) (unat (s_len s)) = t" by blast
  have mq: "mq m (s_start s) (s_len s) l = Some (t = str l)" for l
    using assms(1) s(2,3) by (simp add: memeqstr_ok_def)
  obtain x where x: "printf_int_s m (s_len s) (s_start s) = Some x"
    using printf_int_s_inside [OF s(2) assms(2)] by blast
  show ?thesis
    by (simp add: krpc_msg_parse_query_def benr_as_string_def s(1) t mq x del: str_Cons)
qed

lemma krpc_finish_meaning:
  assumes "memeqstr_ok mq" "length m \<le> INT_MAX" "vals_for m vs kvs"
  shows "krpc_finish mq m msg vs = Some (- 1, krpc_meaning msg kvs)"
  using assms parse_y_meaning [of m "v_y vs"] parse_query_meaning [OF assms(1,2), of "v_q vs"]
  by (auto simp: krpc_finish_def krpc_meaning_def vals_for_def Let_def split: option.split)

subsection \<open>The scan of a complete dictionary\<close>

lemma krpc_key_meaning:
  assumes "denotes m (BENR_STRING ks) (BStr k)" "denotes m b v" "vals_for m vs kvs" "length m \<le> INT_MAX"
  shows "\<exists>vs'. krpc_key m ks b vs = Some vs' \<and> vals_for m vs' (kvs @ [(k, v)])"
proof (cases "s_len ks = 1")
  case True
  with assms(1) have k: "k = [m ! s_start ks]" "s_start ks < length m"
    using view_one [of m "s_start ks"] by auto
  have v: "denotes_opt m b (Some v)" using assms(2) by (simp add: denotes_opt_def)
  obtain c where c: "m ! s_start ks = c" by simp
  consider "c = chr CHR ''y''" | "c = chr CHR ''q''" | "chr CHR ''y'' \<noteq> c" "chr CHR ''q'' \<noteq> c" by metis
  then have "vals_for m (krpc_store (m ! s_start ks) b vs) (kvs @ [(k, v)])"
    using assms(3) v k by cases (auto simp: vals_for_def last_val_snoc krpc_store_def c)
  with True k show ?thesis by (simp add: krpc_key_def load_def)
next
  case False
  with assms(1) have "length k \<noteq> 1" using one_byte [of m ks] by simp
  then have "k \<noteq> str [c]" for c by auto
  with assms(3) have "vals_for m vs (kvs @ [(k, v)])"
    by (simp add: vals_for_def last_val_snoc eq_commute [of _ k])
  with False assms printf_int_s_inside [of m "s_start ks" "s_len ks"] show ?thesis
    by (auto simp: krpc_key_def)
qed

lemma krpc_scan_complete:
  "at m (di_ctx di) (enc_items kvs @ chr CHR ''e'' # r) \<Longrightarrow> length m \<le> INT_MAX \<Longrightarrow> vals_for m vs kvs0 \<Longrightarrow>
     \<exists>vs'. krpc_scan m di vs = Some (Returned vs') \<and> vals_for m vs' (kvs0 @ kvs)"
proof (induction kvs arbitrary: di vs kvs0)
  case Nil
  then obtain di' where "dict_step m di (BENR_NONE, BENR_NONE) = Some (- 1, di', BENR_NONE, BENR_NONE)"
    using dict_iterator.step_end [of m di r "(BENR_NONE, BENR_NONE)"] by auto
  with Nil show ?case
    by (subst krpc_scan.simps) (simp add: dict_step_def)
next
  case (Cons kv kvs)
  have m: "length m < 2 ^ 64" using Cons.prems(2) unfolding INT_MAX_def by simp
  obtain k v where kv: "kv = (k, v)" by (cases kv)
  with Cons.prems(1) have a: "at m (di_ctx di) (enc_item kv @ enc_items kvs @ chr CHR ''e'' # r)"
    by (simp add: enc_item_def)
  obtain di' out' where s: "dict_step m di (BENR_NONE, BENR_NONE) = Some (0, di', out')"
      "di_ctx di' = advance (di_ctx di) (length (enc_item kv))" "denotes_item m out' kv"
    using dict_iterator.step_item [OF a m] by blast
  have a': "at m (di_ctx di') (enc_items kvs @ chr CHR ''e'' # r)"
    using at_advance [OF a] s(2) by simp
  obtain b w where out': "out' = (b, w)" by (cases out')
  then obtain ks where ks: "b = BENR_STRING ks" "denotes m (BENR_STRING ks) (BStr k)" "denotes m w v"
    using s(3) kv by (cases b) (simp_all add: denotes_item_def)
  obtain vs' where vs': "krpc_key m ks w vs = Some vs'" "vals_for m vs' (kvs0 @ [(k, v)])"
    using krpc_key_meaning [OF ks(2,3) Cons.prems(3,2)] by blast
  have "krpc_scan m di vs = krpc_scan m di' vs'"
    using s(1) out' ks(1) vs'(1)
    by (subst krpc_scan.simps) (simp add: dict_step_def benr_as_string_def)
  with Cons.IH [OF a' Cons.prems(2) vs'(2)] kv show ?case by simp
qed

lemma krpc_msg_parse_complete:
  assumes "memeqstr_ok mq" "length m \<le> INT_MAX"
    and m: "m = pre @ encode (BDict kvs) @ post" "unat n = length (encode (BDict kvs) @ post)"
  shows "krpc_msg_parse mq m msg (length pre) n = Some (Returned (- 1, krpc_meaning msg kvs))"
proof -
  obtain b where b: "benr_init m (length pre) n = Some b" "denotes m b (BDict kvs)"
    using benr_init_denotes [OF m] by blast
  then obtain d where d: "b = BENR_DICT d" "in_ctx m (d_ctx d)"
      "starts_with (ctx_view m (d_ctx d)) (enc_items kvs @ [chr CHR ''e''])"
    by (cases b) simp_all
  from d(3) obtain r where "ctx_view m (d_ctx d) = enc_items kvs @ chr CHR ''e'' # r"
    by (rule starts_withE) simp
  with d(2) have at: "at m (di_ctx (benr_dict_iter_of d)) (enc_items kvs @ chr CHR ''e'' # r)"
    by (simp add: at_def benr_dict_iter_of_def)
  have "vals_for m krpc_vals_init []"
    by (simp add: vals_for_def denotes_opt_def last_val_Nil krpc_vals_init_def BENR_INIT_NONE_def)
  from krpc_scan_complete [OF at assms(2) this] obtain vs
    where "krpc_scan m (benr_dict_iter_of d) krpc_vals_init = Some (Returned vs)" "vals_for m vs kvs"
    by auto
  with b(1) d(1) krpc_finish_meaning [OF assms(1,2)] show ?thesis
    by (simp add: krpc_msg_parse_def benr_as_dict_def)
qed

subsection \<open>The messages the program writes\<close>

definition writes :: "'d darray_ops \<Rightarrow> ('d \<Rightarrow> 'd option) \<Rightarrow> bytes \<Rightarrow> bool" where
  "writes da f s \<longleftrightarrow> (\<forall>d. \<exists>d'. f d = Some d' \<and> da_items da d' = da_items da d @ s)"

lemma writes_bind: "writes da f s \<Longrightarrow> writes da g t \<Longrightarrow> writes da (\<lambda>d. Option.bind (f d) g) (s @ t)"
  unfolding writes_def by (metis append_assoc bind.bind_lunit)

lemma writes_marker:
  assumes "darray_ok da"
  shows "writes da (\<lambda>d. Some (ben_dict_begin da d)) [chr CHR ''d'']"
    and "writes da (\<lambda>d. Some (ben_dict_end da d)) [chr CHR ''e'']"
  using assms by (simp_all add: writes_def ben_markers)

lemma writes_literal:
  assumes "darray_ok da" "CHR 0x00 \<notin> set s" "length s \<le> INT_MAX"
  shows "writes da (\<lambda>d. ben_string_c da d (literal s) 0) (enc_str (str s))"
  unfolding writes_def
proof
  fix d
  show "\<exists>d'. ben_string_c da d (literal s) 0 = Some d' \<and> da_items da d' = da_items da d @ enc_str (str s)"
    by (rule ben_string_c_literal [OF assms, of d]) blast
qed

lemma writes_string:
  assumes "darray_ok da" "inside m p (unat n)" "string_ok (view m p (unat n))"
  shows "writes da (\<lambda>d. ben_string da d m p n) (enc_str (view m p (unat n)))"
proof -
  from assms(2,3) have n: "unat n \<le> INT_MAX" "0 \<notin> set (view m p (unat n))"
    by (simp_all add: string_ok_def length_view)
  show ?thesis
    unfolding writes_def
  proof
    fix d
    show "\<exists>d'. ben_string da d m p n = Some d' \<and> da_items da d' = da_items da d @ enc_str (view m p (unat n))"
      by (rule ben_string_enc [OF assms(1,2) n, of d]) blast
  qed
qed

lemma writes_id:
  assumes "darray_ok da" "id_ok i" "0 \<notin> set (ni_id i)"
  shows "writes da (\<lambda>d. encode_id da d i) (enc_str (ni_id i))"
proof -
  from assms(2) have "inside (ni_id i) 0 (unat (20 :: size_t))" "view (ni_id i) 0 (unat (20 :: size_t)) = ni_id i"
    by (simp_all add: id_ok_def inside_def view_def)
  moreover from this assms(2,3) have "string_ok (view (ni_id i) 0 (unat (20 :: size_t)))"
    by (simp add: string_ok_def INT_MAX_def id_ok_def)
  ultimately show ?thesis
    using writes_string [OF assms(1), of "ni_id i" 0 20] by (simp only: encode_id_def)
qed

definition ping_items :: "bytes \<Rightarrow> bytes \<Rightarrow> (bytes \<times> bval) list" where
  "ping_items i t = [(str ''a'', BDict [(str ''id'', BStr i)]), (str ''q'', BStr (str ''ping'')),
     (str ''t'', BStr t), (str ''y'', BStr (str ''q''))]"

definition pong_items :: "bytes \<Rightarrow> bytes \<Rightarrow> (bytes \<times> bval) list" where
  "pong_items i t = [(str ''r'', BDict [(str ''id'', BStr i)]), (str ''t'', BStr t),
     (str ''y'', BStr (str ''r''))]"

lemmas writes_rules = writes_bind writes_marker writes_literal writes_string writes_id

lemma krpc_gen_ping_writes:
  assumes "darray_ok da" "id_ok i" "0 \<notin> set (ni_id i)" "inside m p (unat n)" "string_ok (view m p (unat n))"
  shows "writes da (\<lambda>d. krpc_gen_ping da d i m p n) (encode (BDict (ping_items (ni_id i) (view m p (unat n)))))"
proof -
  let ?l = "\<lambda>s. enc_str (str s)"
  have "writes da (\<lambda>d. krpc_gen_ping da d i m p n)
     ([chr CHR ''d''] @ ?l ''a'' @ [chr CHR ''d''] @ ?l ''id'' @ enc_str (ni_id i) @ [chr CHR ''e''] @
      ?l ''q'' @ ?l ''ping'' @ ?l ''t'' @ enc_str (view m p (unat n)) @ ?l ''y'' @ ?l ''q'' @ [chr CHR ''e''])"
    unfolding krpc_gen_ping_def
    by (intro writes_rules assms) (simp_all add: INT_MAX_def)
  then show ?thesis
    by (simp add: encode_containers ping_items_def)
qed

lemma krpc_gen_ping_response_writes:
  assumes "darray_ok da" "id_ok i" "0 \<notin> set (ni_id i)" "inside m p (unat n)" "string_ok (view m p (unat n))"
  shows "writes da (\<lambda>d. krpc_gen_ping_response da d i m p n) (encode (BDict (pong_items (ni_id i) (view m p (unat n)))))"
proof -
  let ?l = "\<lambda>s. enc_str (str s)"
  have "writes da (\<lambda>d. krpc_gen_ping_response da d i m p n)
     ([chr CHR ''d''] @ ?l ''r'' @ [chr CHR ''d''] @ ?l ''id'' @ enc_str (ni_id i) @ [chr CHR ''e''] @
      ?l ''t'' @ enc_str (view m p (unat n)) @ ?l ''y'' @ ?l ''r'' @ [chr CHR ''e''])"
    unfolding krpc_gen_ping_response_def
    by (intro writes_rules assms) (simp_all add: INT_MAX_def)
  then show ?thesis
    by (simp add: encode_containers pong_items_def)
qed

text \<open>What a ping is for any identifier: \<open>%.*s\<close> cuts a string at its first NUL byte.\<close>

definition put_str :: "bytes \<Rightarrow> bytes" where
  "put_str s = dec_digits (length s) @ chr CHR '':'' # takeWhile (\<lambda>b. b \<noteq> 0) s"

definition ping_bytes :: "bytes \<Rightarrow> bytes \<Rightarrow> bytes" where
  "ping_bytes i t = str ''d1:ad2:id'' @ put_str i @ str ''e1:q4:ping1:t'' @ put_str t @ str ''1:y1:qe''"

definition pong_bytes :: "bytes \<Rightarrow> bytes \<Rightarrow> bytes" where
  "pong_bytes i t = str ''d1:rd2:id'' @ put_str i @ str ''e1:t'' @ put_str t @ str ''1:y1:re''"

lemma put_str_enc: "0 \<notin> set s \<Longrightarrow> put_str s = enc_str s"
  by (simp add: put_str_def enc_str_def no_NUL)

lemma writes_string_any:
  assumes "darray_ok da" "inside m p (unat n)" "unat n \<le> INT_MAX"
  shows "writes da (\<lambda>d. ben_string da d m p n) (put_str (view m p (unat n)))"
  unfolding writes_def
proof
  fix d
  show "\<exists>d'. ben_string da d m p n = Some d' \<and> da_items da d' = da_items da d @ put_str (view m p (unat n))"
    by (rule ben_string_writes [OF assms, of d]) (use assms(2) in \<open>simp add: put_str_def length_view\<close>)
qed

lemma writes_id_any:
  assumes "darray_ok da" "id_ok i"
  shows "writes da (\<lambda>d. encode_id da d i) (put_str (ni_id i))"
proof -
  from assms(2) have v: "inside (ni_id i) 0 (unat (20 :: size_t))" "view (ni_id i) 0 (unat (20 :: size_t)) = ni_id i"
    "unat (20 :: size_t) \<le> INT_MAX"
    by (simp_all add: id_ok_def inside_def view_def INT_MAX_def)
  from writes_string_any [OF assms(1) v(1,3)] v(2) show ?thesis by (simp only: encode_id_def)
qed

lemma digit_lits: "dec_digits (Suc 0) = [chr CHR ''1'']" "dec_digits (Suc (Suc 0)) = [chr CHR ''2'']"
  "dec_digits (Suc (Suc (Suc (Suc 0)))) = [chr CHR ''4'']"
  by (subst dec_digits.simps, simp add: chr_def)+

lemma krpc_gen_ping_bytes:
  assumes "darray_ok da" "id_ok i" "inside m p (unat n)" "unat n \<le> INT_MAX"
  shows "writes da (\<lambda>d. krpc_gen_ping da d i m p n) (ping_bytes (ni_id i) (view m p (unat n)))"
proof -
  let ?l = "\<lambda>s. enc_str (str s)"
  have "writes da (\<lambda>d. krpc_gen_ping da d i m p n)
     ([chr CHR ''d''] @ ?l ''a'' @ [chr CHR ''d''] @ ?l ''id'' @ put_str (ni_id i) @ [chr CHR ''e''] @
      ?l ''q'' @ ?l ''ping'' @ ?l ''t'' @ put_str (view m p (unat n)) @ ?l ''y'' @ ?l ''q'' @ [chr CHR ''e''])"
    unfolding krpc_gen_ping_def
    by (intro writes_bind writes_marker writes_literal writes_string_any writes_id_any assms) (simp_all add: INT_MAX_def)
  then show ?thesis
    by (simp add: ping_bytes_def enc_str_def digit_lits)
qed

lemma ping_bytes_encode:
  "0 \<notin> set i \<Longrightarrow> 0 \<notin> set t \<Longrightarrow> ping_bytes i t = encode (BDict (ping_items i t))"
  by (simp add: ping_bytes_def ping_items_def put_str_enc encode_containers enc_str_def digit_lits)

lemma krpc_gen_ping_response_bytes:
  assumes "darray_ok da" "id_ok i" "inside m p (unat n)" "unat n \<le> INT_MAX"
  shows "writes da (\<lambda>d. krpc_gen_ping_response da d i m p n) (pong_bytes (ni_id i) (view m p (unat n)))"
proof -
  let ?l = "\<lambda>s. enc_str (str s)"
  have "writes da (\<lambda>d. krpc_gen_ping_response da d i m p n)
     ([chr CHR ''d''] @ ?l ''r'' @ [chr CHR ''d''] @ ?l ''id'' @ put_str (ni_id i) @ [chr CHR ''e''] @
      ?l ''t'' @ put_str (view m p (unat n)) @ ?l ''y'' @ ?l ''r'' @ [chr CHR ''e''])"
    unfolding krpc_gen_ping_response_def
    by (intro writes_bind writes_marker writes_literal writes_string_any writes_id_any assms) (simp_all add: INT_MAX_def)
  then show ?thesis
    by (simp add: pong_bytes_def enc_str_def digit_lits)
qed

end
