(* ===== verification/Krpc_Broken_Ping.thy ===== *)
theory Krpc_Broken_Ping
  imports Krpc_Termination Krpc_Meaning
begin

text \<open>
  What the parser makes of a ping, or of a response to it, whose identifier has a NUL byte. The writer then puts fewer than 20 bytes
  behind the prefix \<open>20:\<close>, so the reader takes the missing ones from the text that follows and goes on in the
  middle of it.
\<close>

text \<open>The ping behind its identifier, with the transaction \<open>tt\<close> the program uses.\<close>

definition ping_tail :: bytes where
  "ping_tail = str ''e1:q4:ping1:t2:tt1:y1:qe''"

text \<open>The lengths of the identifier's front for which the rest happens to be read to its end.\<close>

definition resync :: "nat set" where
  "resync = {0, 3, 7, 10, 16, 19}"

lemma ping_tail_skips:
  "list_all (\<lambda>k. skip_ref 1 (drop (20 - k) ping_tail) =
     (if k \<in> {0, 3, 7, 10, 16, 19} then Inr (4 + k) else Inl (if k = 13 then Tok_int_byte 1 else Tok_byte))) [0..<20]"
  by code_simp

lemma ping_tail_skip:
  assumes "k < 20"
  shows "skip_ref 1 (drop (20 - k) ping_tail) =
    (if k \<in> resync then Inr (4 + k) else Inl (if k = 13 then Tok_int_byte 1 else Tok_byte))"
proof -
  have "k \<in> set [0..<20]" using assms by simp
  with ping_tail_skips show ?thesis unfolding list_all_iff resync_def by blast
qed

lemma skip_ref_str:
  assumes "length s < 2 ^ 64"
  shows "skip_ref 1 (enc_str s @ r) = map_sum id ((+) (length (enc_str s))) (skip_ref 1 r)"
  using skip_ref_step [OF _ lex_enc_str [OF assms], of 1 r] by (simp add: tok_stuck_def)

lemma skip_two:
  assumes "length s < 2 ^ 64" "length t < 2 ^ 64"
  shows "skip_ref 1 (enc_str s @ enc_str t @ r) =
    map_sum id ((+) (length (enc_str s) + length (enc_str t))) (skip_ref 1 r)"
  unfolding skip_ref_str [OF assms(1)] skip_ref_str [OF assms(2)] by (cases "skip_ref 1 r") simp_all

lemma dec_digits_20: "dec_digits 20 = [chr CHR ''2'', chr CHR ''0'']"
proof -
  have "dec_digits 2 = [chr CHR ''2'']" by (subst dec_digits.simps) (simp add: chr_def)
  then show ?thesis by (subst dec_digits.simps) (simp add: chr_def)
qed

text \<open>A message whose first entry is a dictionary with an identifier, read with \<open>s\<close> as the front of the identifier.\<close>

lemma skip_id:
  assumes "length s < 20"
  shows "skip_ref 1 (str ''2:id20:'' @ s @ tail) =
    (if length s + length tail < 20 then Inl (Tok_long 20)
     else map_sum id ((+) 27) (skip_ref 1 (drop (20 - length s) tail)))"
proof (cases "length s + length tail < 20")
  case False
  let ?x = "s @ take (20 - length s) tail" and ?r = "drop (20 - length s) tail"
  have x: "length ?x = 20" using assms False by simp
  have id: "str ''2:id20:'' @ s @ tail = enc_str (str ''id'') @ enc_str ?x @ ?r"
    using x by (simp add: enc_str_def digit_lits dec_digits_20)
  show ?thesis
    unfolding id using skip_two [of "str ''id''" ?x ?r] x False by (simp add: enc_str_def digit_lits dec_digits_20)
next
  case True
  have d: "isdigit (chr CHR ''2'')" "isdigit (chr CHR ''0'')" "\<not> isdigit (chr CHR '':'')" by (simp_all add: isdigit_def chr_def)
  have "lex_tok (str ''20:'' @ s @ tail) = (Tok_long 20, 0)"
    using d True by (simp add: lex_str_def Let_def dec_acc_def chr_def word_less_nat_alt)
  then have "skip_ref 1 (str ''20:'' @ s @ tail) = Inl (Tok_long 20)"
    by (intro skip_ref_stuck) (simp_all add: tok_stuck_def)
  moreover have id: "str ''2:id20:'' @ s @ tail = enc_str (str ''id'') @ str ''20:'' @ s @ tail"
    by (simp add: enc_str_def digit_lits)
  moreover have "length (str ''id'') < 2 ^ 64" by simp
  note skip_ref_str [OF this, of "str ''20:'' @ s @ tail"]
  ultimately show ?thesis
    using True unfolding id by (simp only: map_sum.simps id_apply if_True)
qed

lemma id_item:
  assumes "length s < 20"
  shows "dict_item (enc_str [b] @ chr CHR ''d'' # str ''2:id20:'' @ s @ tail) =
    (if length s + length tail < 20 then None
     else case skip_ref 1 (drop (20 - length s) tail) of Inl _ \<Rightarrow> None | Inr l \<Rightarrow> Some (31 + l))"
proof -
  let ?r = "str ''2:id20:'' @ s @ tail"
  have len: "length (enc_str [b]) = 3" by (simp add: enc_str_def digit_lits)
  then have a: "lex_tok (enc_str [b] @ chr CHR ''d'' # ?r) = (Tok_str [b], 3)"
    using lex_enc_str [of "[b]" "chr CHR ''d'' # ?r"] by simp
  have d: "drop 3 (enc_str [b] @ chr CHR ''d'' # ?r) = chr CHR ''d'' # ?r" "drop (3 + 1) (enc_str [b] @ chr CHR ''d'' # ?r) = ?r"
    using len by simp_all
  have l: "lex_tok (chr CHR ''d'' # ?r) = (Tok_dict, 1)" by simp
  have "dict_item (enc_str [b] @ chr CHR ''d'' # ?r) = (case skip_ref 1 ?r of Inl _ \<Rightarrow> None | Inr l \<Rightarrow> Some (3 + 1 + l))"
    unfolding dict_item_def a Let_def prod.case d l by simp
  then show ?thesis
    unfolding skip_id [OF assms] by (cases "skip_ref 1 (drop (20 - length s) tail)") simp_all
qed

lemma ping_item:
  assumes "length s < 20"
  shows "dict_item (str ''1:ad2:id20:'' @ s @ ping_tail) =
    (if length s \<in> resync then Some (length (str ''1:ad2:id20:'' @ s @ ping_tail)) else None)"
proof -
  have m: "str ''1:ad2:id20:'' @ s @ ping_tail = enc_str [chr CHR ''a''] @ chr CHR ''d'' # str ''2:id20:'' @ s @ ping_tail"
    by (simp add: enc_str_def digit_lits)
  have len: "length ping_tail = 24" "length (enc_str [chr CHR ''a'']) = 3" by (simp_all add: ping_tail_def enc_str_def digit_lits)
  show ?thesis
    unfolding m id_item [OF assms] ping_tail_skip [OF assms] using len by simp
qed

text \<open>The response to such a ping behind its identifier.\<close>

definition pong_tail :: bytes where
  "pong_tail = str ''e1:t2:tt1:y1:re''"

definition pong_resync :: "nat set" where
  "pong_resync = {6, 9, 12, 16, 19}"

lemma pong_tail_skips:
  "list_all (\<lambda>k. skip_ref 1 (drop (20 - k) pong_tail) =
     (if k \<in> {6, 9, 12, 16, 19} then Inr (k - 5) else Inl (if k = 5 then Tok_none else Tok_byte))) [5..<20]"
  by code_simp

lemma pong_tail_skip:
  assumes "5 \<le> k" "k < 20"
  shows "skip_ref 1 (drop (20 - k) pong_tail) =
    (if k \<in> pong_resync then Inr (k - 5) else Inl (if k = 5 then Tok_none else Tok_byte))"
proof -
  have "k \<in> set [5..<20]" using assms by (simp only: set_upt atLeastLessThan_iff)
  with pong_tail_skips show ?thesis unfolding list_all_iff pong_resync_def by blast
qed

lemma pong_item:
  assumes "length s < 20"
  shows "dict_item (str ''1:rd2:id20:'' @ s @ pong_tail) =
    (if length s \<in> pong_resync then Some (length (str ''1:rd2:id20:'' @ s @ pong_tail)) else None)"
proof -
  have m: "str ''1:rd2:id20:'' @ s @ pong_tail = enc_str [chr CHR ''r''] @ chr CHR ''d'' # str ''2:id20:'' @ s @ pong_tail"
    by (simp add: enc_str_def digit_lits)
  have len: "length pong_tail = 15" "length (enc_str [chr CHR ''r'']) = 3" by (simp_all add: pong_tail_def enc_str_def digit_lits)
  show ?thesis
  proof (cases "length s < 5")
    case True
    then have "length s \<notin> pong_resync" by (auto simp: pong_resync_def)
    with True len show ?thesis unfolding m id_item [OF assms] by simp
  next
    case False
    then have "5 \<le> length s" by simp
    from False len show ?thesis unfolding m id_item [OF assms] pong_tail_skip [OF \<open>5 \<le> length s\<close> assms] by simp
  qed
qed

text \<open>A message whose first entry stops the iteration has no type.\<close>

lemma krpc_msg_parse_no_entry:
  assumes "inside m data (unat n)" "length m \<le> INT_MAX" "view m data (unat n) = chr CHR ''d'' # r" "dict_item r = None"
  shows "krpc_msg_parse mq m msg data n = Some (Returned (- 1, msg\<lparr>km_type := KT_NONE\<rparr>))"
proof -
  let ?c = "\<lparr>ctx_start = data, ctx_len = n\<rparr>"
  let ?d = "\<lparr>d_ctx = advance ?c 1\<rparr>"
  have m: "length m < 2 ^ 63" using assms(2) unfolding INT_MAX_def by simp
  have at: "at m ?c (chr CHR ''d'' # r)" using assms by (simp add: at_def)
  have init: "benr_init m data n = Some (BENR_DICT ?d)"
    using benr_next_at [OF at, of Tok_dict 1] by (simp add: benr_init_def advance_def mk_ctx_def)
  have at': "at m (di_ctx (benr_dict_iter_of ?d)) r"
    using at_advance_Cons [OF at] by (simp add: benr_dict_iter_of_def)
  from at' m have "krpc_scan m (benr_dict_iter_of ?d) krpc_vals_init = Some (Returned krpc_vals_init)"
  proof (cases rule: benr_dict_iter_next_ref [where k = BENR_NONE and v = BENR_NONE])
    case (stops r' di')
    then show ?thesis by (subst krpc_scan.simps) simp
  qed (use assms(4) in simp)
  with init show ?thesis
    by (simp add: krpc_msg_parse_def benr_as_dict_def krpc_finish_def krpc_parse_y_def krpc_vals_init_def
        BENR_INIT_NONE_def benr_as_string_def)
qed

text \<open>A message whose first entry takes everything, or stops the iteration.\<close>

lemma krpc_msg_parse_first_entry:
  assumes "memeqstr_ok mq" "length m \<le> INT_MAX" "m = chr CHR ''d'' # r" "r \<noteq> []"
    "dict_item r = (if b then Some (length r) else None)"
  shows "krpc_msg_parse mq m msg 0 (of_nat (length m)) =
    (if b then None else Some (Returned (- 1, msg\<lparr>km_type := KT_NONE\<rparr>)))"
proof -
  have n: "unat (of_nat (length m) :: size_t) = length m" using assms(2) by (rule unat_of_nat_INT_MAX)
  then have v: "inside m 0 (unat (of_nat (length m) :: size_t))" "view m 0 (unat (of_nat (length m) :: size_t)) = m"
    by (simp_all add: inside_def view_def)
  show ?thesis
  proof (cases b)
    case True
    with assms(5) have item: "dict_item r = Some (length r)" by simp
    have "length r \<noteq> 0" using assms(4) by simp
    from dict_ends_step [OF item this] dict_ends_0 [OF dict_item_Nil] have "\<not> dict_ends r" by simp
    then have "\<not> krpc_returns m" unfolding assms(3) by (simp add: krpc_returns_def)
    with krpc_msg_parse_terminates [OF assms(1) v(1) assms(2), of msg] v(2) True show ?thesis by simp
  next
    case False
    with assms(5) have "dict_item r = None" by simp
    from krpc_msg_parse_no_entry [OF v(1) assms(2) _ this] v(2) assms(3) False show ?thesis by simp
  qed
qed

lemma ping_NUL_parsed:
  assumes "memeqstr_ok mq" "length i = 20" "0 \<in> set i"
  shows "krpc_msg_parse mq (ping_bytes i (str ''tt'')) msg 0 (of_nat (length (ping_bytes i (str ''tt'')))) =
    (if length (takeWhile (\<lambda>b. b \<noteq> 0) i) \<in> resync then None
     else Some (Returned (- 1, msg\<lparr>km_type := KT_NONE\<rparr>)))"
proof -
  let ?s = "takeWhile (\<lambda>b. b \<noteq> 0) i"
  let ?r = "str ''1:ad2:id20:'' @ ?s @ ping_tail" and ?m = "ping_bytes i (str ''tt'')"
  have s: "length ?s < 20" using takeWhile_shorter [OF assms(3), of "\<lambda>b. b \<noteq> 0"] assms(2) by simp
  have m: "?m = chr CHR ''d'' # ?r"
    using assms(2) by (simp add: ping_bytes_def put_str_def dec_digits_20 digit_lits ping_tail_def chr_def)
  have "length ?m < 60" using s unfolding m by (simp add: ping_tail_def)
  then have "length ?m \<le> INT_MAX" by (simp add: INT_MAX_def)
  from krpc_msg_parse_first_entry [OF assms(1) this m _ ping_item [OF s]] show ?thesis by simp
qed

lemma pong_NUL_parsed:
  assumes "memeqstr_ok mq" "length i = 20" "0 \<in> set i"
  shows "krpc_msg_parse mq (pong_bytes i (str ''tt'')) msg 0 (of_nat (length (pong_bytes i (str ''tt'')))) =
    (if length (takeWhile (\<lambda>b. b \<noteq> 0) i) \<in> pong_resync then None
     else Some (Returned (- 1, msg\<lparr>km_type := KT_NONE\<rparr>)))"
proof -
  let ?s = "takeWhile (\<lambda>b. b \<noteq> 0) i"
  let ?r = "str ''1:rd2:id20:'' @ ?s @ pong_tail" and ?m = "pong_bytes i (str ''tt'')"
  have s: "length ?s < 20" using takeWhile_shorter [OF assms(3), of "\<lambda>b. b \<noteq> 0"] assms(2) by simp
  have m: "?m = chr CHR ''d'' # ?r"
    using assms(2) by (simp add: pong_bytes_def put_str_def dec_digits_20 digit_lits pong_tail_def chr_def)
  have "length ?m < 60" using s unfolding m by (simp add: pong_tail_def)
  then have "length ?m \<le> INT_MAX" by (simp add: INT_MAX_def)
  from krpc_msg_parse_first_entry [OF assms(1) this m _ pong_item [OF s]] show ?thesis by simp
qed

lemma ping_parsed:
  assumes "memeqstr_ok mq" "length i = 20" "0 \<notin> set i"
  shows "krpc_msg_parse mq (ping_bytes i (str ''tt'')) msg 0 (of_nat (length (ping_bytes i (str ''tt'')))) =
    Some (Returned (- 1, set_query (msg\<lparr>km_type := KT_QUERY\<rparr>) KQ_PING))"
proof -
  let ?kvs = "ping_items i (str ''tt'')" and ?m = "ping_bytes i (str ''tt'')"
  have tt: "0 \<notin> set (str ''tt'')" by (simp add: chr_def)
  have m: "?m = encode (BDict ?kvs)" by (rule ping_bytes_encode [OF assms(3) tt])
  have "length ?m = length (str ''1:ad2:id20:'' @ i @ ping_tail) + 1"
    unfolding ping_bytes_def put_str_enc [OF assms(3)] put_str_enc [OF tt] using assms(2)
    by (simp add: enc_str_def dec_digits_20 digit_lits ping_tail_def)
  then have len: "length ?m \<le> INT_MAX" using assms(2) by (simp add: ping_tail_def INT_MAX_def)
  have "krpc_msg_parse mq ?m msg (length ([] :: bytes)) (of_nat (length ?m)) = Some (Returned (- 1, krpc_meaning msg ?kvs))"
    using unat_of_nat_INT_MAX [OF len] len m
    by (intro krpc_msg_parse_complete [OF assms(1), where post = "[]"]) simp_all
  then show ?thesis by (simp add: krpc_meaning_def last_val_def ping_items_def)
qed

end
