(* ===== verification/Krpc_Properties.thy ===== *)
theory Krpc_Properties
  imports Krpc_Broken_Ping
begin

text \<open>
  The properties of the KRPC component of \<open>bt_dht.c\<close>: the parser of messages and the messages the program
  sends.
\<close>

lemma unat_of_nat_length: "length m \<le> INT_MAX \<Longrightarrow> unat (of_nat (length m) :: size_t) = length m"
  by (rule unat_of_nat_INT_MAX)

lemma dec_digits_small: "n < 10 \<Longrightarrow> dec_digits n = [of_nat n + 48]"
  by (subst dec_digits.simps) simp

lemma dec_digits_length: "length (dec_digits n) \<le> Suc n"
proof (induction n rule: dec_digits.induct)
  case (1 n)
  then show ?case by (subst dec_digits.simps) auto
qed

lemma enc_str_length: "length (enc_str s) \<le> 2 * length s + 2"
  using dec_digits_length [of "length s"] by (simp add: enc_str_def)

text \<open>A message before it is parsed.\<close>

definition krpc_msg0 :: krpc_msg where
  "krpc_msg0 = \<lparr>km_type = KT_NONE, km_trans_id = 0, km_trans_id_len = 0,
     km_error = \<lparr>ke_code = 0, ke_str = 0, ke_len = 0\<rparr>,
     km_query = \<lparr>kq_query = KQ_NONE, kq_id = 0, kq_id_len = 0, kq_args = Args_unset\<rparr>\<rparr>"

lemma ping_msg_example:
  "encode (BDict [(str ''q'', BStr (str ''ping'')), (str ''y'', BStr (str ''q''))]) = str ''d1:q4:ping1:y1:qe''"
  by (simp add: encode_containers enc_str_def dec_digits_small) (simp add: chr_def)

subsection \<open>Parsing\<close>

text \<open>C3. What a complete message means: \<open>krpc_msg_parse\<close> on an encoded dictionary sets the type from its
  last entry \<open>y\<close>, sets the query of queries and responses from its last entry \<open>q\<close>, leaves everything
  else of the message alone, and returns -1.\<close>

theorem krpc_parse_complete_message:
  assumes "memeqstr_ok memeqstr" "length m \<le> INT_MAX"
    "m = pre @ encode (BDict kvs) @ post" "unat n = length (encode (BDict kvs) @ post)"
  shows "krpc_msg_parse memeqstr m msg (length pre) n = Some (Returned (- 1, krpc_meaning msg kvs))"
  using assms by (rule krpc_msg_parse_complete)

theorem krpc_parse_complete_message_witness:
  "krpc_msg_parse memeqstr_ref (str ''d1:q4:ping1:y1:qe'') krpc_msg0 0 17 =
     Some (Returned (- 1, set_query (krpc_msg0\<lparr>km_type := KT_QUERY\<rparr>) KQ_PING))"
proof -
  let ?kvs = "[(str ''q'', BStr (str ''ping'')), (str ''y'', BStr (str ''q''))]"
  have "krpc_msg_parse memeqstr_ref (str ''d1:q4:ping1:y1:qe'') krpc_msg0 (length ([] :: bytes)) 17 =
      Some (Returned (- 1, krpc_meaning krpc_msg0 ?kvs))"
    by (rule krpc_parse_complete_message [OF memeqstr_ref_ok, where post = "[]"])
       (simp_all only: ping_msg_example, simp_all add: INT_MAX_def)
  then show ?thesis by (simp add: krpc_meaning_def last_val_def)
qed

text \<open>C8. The parser never reads outside the message: on bytes inside their object (of at most \<open>INT_MAX\<close>
  bytes) no run of \<open>krpc_msg_parse\<close> ends in an undefined access, whatever the bytes are.\<close>

theorem krpc_parse_memory_safe:
  assumes "memeqstr_ok memeqstr" "inside m data (unat n)" "length m \<le> INT_MAX"
  shows "krpc_msg_parse memeqstr m msg data n \<noteq> Some Undefined"
  using assms by (rule krpc_msg_parse_defined)

theorem krpc_parse_memory_safe_witness:
  "krpc_msg_parse memeqstr_ref (str ''d3:abc'') krpc_msg0 0 6 \<noteq> Some Undefined"
  by (rule krpc_parse_memory_safe [OF memeqstr_ref_ok]) (simp_all add: inside_def INT_MAX_def)

text \<open>Every run that returns, returns -1.\<close>

lemma krpc_parse_never_succeeds:
  assumes "krpc_msg_parse memeqstr m msg data n = Some (Returned (r, msg'))"
  shows "r = - 1"
  using assms by (rule krpc_msg_parse_negative)

text \<open>C4. When the parser returns, on any bytes: \<open>krpc_msg_parse\<close> returns exactly on data that does not start with
  a dictionary and on dictionaries \<open>dict_ends\<close> accepts, those where the iterator reaches an end marker or a
  nested container that is broken; on all others it never returns. The status is always -1.\<close>

theorem krpc_parse_terminates_iff:
  assumes "memeqstr_ok memeqstr" "inside m data (unat n)" "length m \<le> INT_MAX"
  shows "if krpc_returns (view m data (unat n))
    then \<exists>msg'. krpc_msg_parse memeqstr m msg data n = Some (Returned (- 1, msg'))
    else krpc_msg_parse memeqstr m msg data n = None"
  using assms by (rule krpc_msg_parse_terminates)

theorem krpc_parse_terminates_iff_witness:
  "krpc_msg_parse memeqstr_ref (str ''d1:yl'') krpc_msg0 0 4 = None \<and>
   (\<exists>msg'. krpc_msg_parse memeqstr_ref (str ''d1:ylx'') krpc_msg0 0 6 = Some (Returned (- 1, msg')))"
proof -
  have v: "inside (str ''d1:yl'') 0 (unat (4 :: size_t))" "view (str ''d1:yl'') 0 (unat (4 :: size_t)) = str ''d1:y''"
    "length (str ''d1:yl'') \<le> INT_MAX"
    by (simp_all add: inside_def view_def INT_MAX_def)
  have w: "inside (str ''d1:ylx'') 0 (unat (6 :: size_t))" "view (str ''d1:ylx'') 0 (unat (6 :: size_t)) = str ''d1:ylx''"
    "length (str ''d1:ylx'') \<le> INT_MAX"
    by (simp_all add: inside_def view_def INT_MAX_def)
  have "\<not> krpc_returns (str ''d1:y'')" "krpc_returns (str ''d1:ylx'')" by code_simp+
  with krpc_parse_terminates_iff [OF memeqstr_ref_ok v(1,3), of krpc_msg0]
    krpc_parse_terminates_iff [OF memeqstr_ref_ok w(1,3), of krpc_msg0] v(2) w(2)
  show ?thesis by simp
qed

text \<open>C26. A broken message hangs the parser: where the top level dictionary has complete entries and then the
  data ends, or a byte stands there that starts no value, or a string is longer than the data,
  \<open>krpc_msg_parse\<close> never returns.\<close>

theorem krpc_parse_hangs_on_broken_dict:
  assumes "m = pre @ chr CHR ''d'' # enc_items kvs @ bs" "unat n = length m - length pre"
    "tok_stuck (fst (lex_tok bs))" "length m \<le> INT_MAX"
  shows "krpc_msg_parse memeqstr m msg (length pre) n = None"
  using assms by (rule krpc_msg_parse_stuck)

theorem krpc_parse_hangs_on_broken_dict_witness:
  "krpc_msg_parse memeqstr_ref (str ''dx'') krpc_msg0 0 2 = None"
  using krpc_parse_hangs_on_broken_dict [of "str ''dx''" "[]" "[]" "str ''x''" 2 memeqstr_ref krpc_msg0]
  by (simp add: tok_stuck_def isdigit_def chr_def INT_MAX_def)

subsection \<open>The messages sent\<close>

text \<open>C13. The ping the program sends is a ping to its own parser: for an identifier without NUL bytes and
  a transaction identifier of up to \<open>2 ^ 29\<close> bytes without NUL, \<open>krpc_gen_ping\<close> writes the encoded
  dictionary, and \<open>krpc_msg_parse\<close> finds a query of kind ping in it.\<close>

theorem krpc_ping_understood:
  assumes "darray_ok da" "da_items da d = []" "memeqstr_ok memeqstr" "id_ok i" "0 \<notin> set (ni_id i)"
    "inside m p (unat n)" "0 \<notin> set (view m p (unat n))" "unat n \<le> 2 ^ 29"
  shows "\<exists>d'. krpc_gen_ping da d i m p n = Some d' \<and>
    da_items da d' = encode (BDict (ping_items (ni_id i) (view m p (unat n)))) \<and>
    krpc_msg_parse memeqstr (da_items da d') msg 0 (of_nat (length (da_items da d'))) =
      Some (Returned (- 1, set_query (msg\<lparr>km_type := KT_QUERY\<rparr>) KQ_PING))"
proof -
  let ?t = "view m p (unat n)" and ?kvs = "ping_items (ni_id i) (view m p (unat n))"
  have len: "length ?t = unat n" "length (ni_id i) = 20"
    using assms(4,6) by (simp_all add: length_view id_ok_def)
  have "string_ok ?t" using assms(7,8) len(1) by (simp add: string_ok_def INT_MAX_def)
  then obtain d' where d': "krpc_gen_ping da d i m p n = Some d'" "da_items da d' = encode (BDict ?kvs)"
    using krpc_gen_ping_writes [OF assms(1,4,5,6)] assms(2) by (metis writes_def append_Nil)
  have "length (encode (BDict ?kvs)) \<le> INT_MAX"
    using enc_str_length [of ?t] enc_str_length [of "ni_id i"] len assms(8)
    by (simp add: ping_items_def encode_containers enc_str_def dec_digits_small INT_MAX_def)
  then have "krpc_msg_parse memeqstr (da_items da d') msg (length ([] :: bytes)) (of_nat (length (da_items da d'))) =
      Some (Returned (- 1, krpc_meaning msg ?kvs))"
    unfolding d'(2) using unat_of_nat_length
    by (intro krpc_msg_parse_complete [OF assms(3), where post = "[]"]) simp_all
  with d' show ?thesis
    by (simp add: krpc_meaning_def last_val_def ping_items_def)
qed

theorem krpc_ping_understood_witness:
  "\<exists>d'. krpc_gen_ping list_darray [] \<lparr>ni_id = replicate 20 65\<rparr> (literal ''tt'') 0 2 = Some d' \<and>
     krpc_msg_parse memeqstr_ref d' krpc_msg0 0 (of_nat (length d')) =
       Some (Returned (- 1, set_query (krpc_msg0\<lparr>km_type := KT_QUERY\<rparr>) KQ_PING))"
  using krpc_ping_understood [of list_darray "[]" memeqstr_ref "\<lparr>ni_id = replicate 20 65\<rparr>" "literal ''tt''" 0 2 krpc_msg0]
    list_darray_ok memeqstr_ref_ok
  by (simp add: list_darray_def id_ok_def inside_def literal_def view_def NUL_chr)

text \<open>C34. What the program's own parser makes of the responses \<open>krpc_gen_ping_response\<close> writes, for a transaction of up
  to \<open>2 ^ 29\<close> bytes without NUL. Without a NUL byte in the identifier it finds a response, but stops with -1 there:
  a response has no entry \<open>q\<close>, and the entry \<open>r\<close> is never looked at. With a NUL byte in the identifier (which a
  random one may have) the response to the program's own pings, of transaction \<open>tt\<close>, is not even that:
  depending on where the first NUL byte stands, the parser does not return or finds no type.\<close>

theorem krpc_response_rejected:
  assumes "darray_ok da" "da_items da d = []" "memeqstr_ok memeqstr" "id_ok i"
    "inside m p (unat n)" "0 \<notin> set (view m p (unat n))" "unat n \<le> 2 ^ 29"
  shows "\<exists>d'. krpc_gen_ping_response da d i m p n = Some d' \<and>
    (if 0 \<notin> set (ni_id i) then
       da_items da d' = encode (BDict (pong_items (ni_id i) (view m p (unat n)))) \<and>
       krpc_msg_parse memeqstr (da_items da d') msg 0 (of_nat (length (da_items da d'))) =
         Some (Returned (- 1, msg\<lparr>km_type := KT_RESPONSE\<rparr>))
     else
       view m p (unat n) = str ''tt'' \<longrightarrow>
       krpc_msg_parse memeqstr (da_items da d') msg 0 (of_nat (length (da_items da d'))) =
         (if length (takeWhile (\<lambda>b. b \<noteq> 0) (ni_id i)) \<in> {6, 9, 12, 16, 19} then None
          else Some (Returned (- 1, msg\<lparr>km_type := KT_NONE\<rparr>))))"
proof (cases "0 \<in> set (ni_id i)")
  case False
  let ?t = "view m p (unat n)" and ?kvs = "pong_items (ni_id i) (view m p (unat n))"
  have len: "length ?t = unat n" "length (ni_id i) = 20"
    using assms(4,5) by (simp_all add: length_view id_ok_def)
  have "string_ok ?t" using assms(6,7) len(1) by (simp add: string_ok_def INT_MAX_def)
  then obtain d' where d': "krpc_gen_ping_response da d i m p n = Some d'" "da_items da d' = encode (BDict ?kvs)"
    using krpc_gen_ping_response_writes [OF assms(1,4) False assms(5)] assms(2) by (metis writes_def append_Nil)
  have "length (encode (BDict ?kvs)) \<le> INT_MAX"
    using enc_str_length [of ?t] enc_str_length [of "ni_id i"] len assms(7)
    by (simp add: pong_items_def encode_containers enc_str_def dec_digits_small INT_MAX_def)
  then have "krpc_msg_parse memeqstr (da_items da d') msg (length ([] :: bytes)) (of_nat (length (da_items da d'))) =
      Some (Returned (- 1, krpc_meaning msg ?kvs))"
    unfolding d'(2) using unat_of_nat_length
    by (intro krpc_msg_parse_complete [OF assms(3), where post = "[]"]) simp_all
  with d' False show ?thesis
    by (simp add: krpc_meaning_def last_val_def pong_items_def)
next
  case True
  have "unat n \<le> INT_MAX" using assms(7) by (simp add: INT_MAX_def)
  from krpc_gen_ping_response_bytes [OF assms(1,4,5) this] assms(2)
  obtain d' where d': "krpc_gen_ping_response da d i m p n = Some d'" "da_items da d' = pong_bytes (ni_id i) (view m p (unat n))"
    by (metis writes_def append_Nil)
  have "length (ni_id i) = 20" using assms(4) by (simp add: id_ok_def)
  from pong_NUL_parsed [OF assms(3) this True, of msg] d' True show ?thesis unfolding pong_resync_def by auto
qed

theorem krpc_response_rejected_witness:
  "(\<exists>d'. krpc_gen_ping_response list_darray [] \<lparr>ni_id = replicate 20 65\<rparr> (literal ''tt'') 0 2 = Some d' \<and>
     krpc_msg_parse memeqstr_ref d' krpc_msg0 0 (of_nat (length d')) =
       Some (Returned (- 1, krpc_msg0\<lparr>km_type := KT_RESPONSE\<rparr>))) \<and>
   (\<exists>d'. krpc_gen_ping_response list_darray [] \<lparr>ni_id = replicate 6 65 @ replicate 14 0\<rparr> (literal ''tt'') 0 2 = Some d' \<and>
     krpc_msg_parse memeqstr_ref d' krpc_msg0 0 (of_nat (length d')) = None)"
proof -
  have tt: "view (literal ''tt'') 0 (unat (2 :: size_t)) = str ''tt''" "inside (literal ''tt'') 0 (unat (2 :: size_t))"
    "0 \<notin> set (view (literal ''tt'') 0 (unat (2 :: size_t)))" "unat (2 :: size_t) \<le> 2 ^ 29"
    by (simp_all add: view_def literal_def inside_def NUL_chr)
  have i: "id_ok \<lparr>ni_id = replicate 20 65\<rparr>" "id_ok \<lparr>ni_id = replicate 6 65 @ replicate 14 0\<rparr>" by (simp_all add: id_ok_def)
  have da: "da_items list_darray [] = []" "\<And>d. da_items list_darray d = d" by (simp_all add: list_darray_def)
  note p = krpc_response_rejected [OF list_darray_ok da(1) memeqstr_ref_ok _ tt(2-4), of _ krpc_msg0, unfolded da(2)]
  have six: "takeWhile (\<lambda>b. b \<noteq> 0) (replicate 6 65 @ replicate 14 (0 :: byte)) = replicate 6 65" by code_simp
  from p [OF i(1)] p [OF i(2)] tt(1) show ?thesis by (auto simp: six)
qed

text \<open>An identifier with a NUL byte, as \<open>load_random_id\<close> may give, breaks the message: \<open>encode_id\<close> writes
  the prefix of 20 bytes and fewer bytes than that.\<close>

lemma encode_id_NUL_breaks:
  assumes "darray_ok da" "id_ok i" "0 \<in> set (ni_id i)"
  shows "\<exists>d' s. encode_id da d i = Some d' \<and> da_items da d' = da_items da d @ dec_digits 20 @ chr CHR '':'' # s \<and>
    length s < 20"
proof -
  let ?s = "takeWhile (\<lambda>b. b \<noteq> 0) (ni_id i)"
  from assms(2) have v: "inside (ni_id i) 0 (unat (20 :: size_t))" "view (ni_id i) 0 (unat (20 :: size_t)) = ni_id i"
    "unat (20 :: size_t) \<le> INT_MAX"
    by (simp_all add: id_ok_def inside_def view_def INT_MAX_def)
  have "length ?s < length (ni_id i)"
    using assms(3) by (rule takeWhile_shorter) simp
  then have "length ?s < 20" using assms(2) by (simp add: id_ok_def)
  moreover obtain d' where "ben_string da d (ni_id i) 0 20 = Some d'"
      "da_items da d' = da_items da d @ dec_digits 20 @ chr CHR '':'' # ?s"
    using ben_string_writes [OF assms(1) v(1,3), of d] v(2) by auto
  ultimately show ?thesis unfolding encode_id_def by blast
qed

end
