(* ===== verification/Nodes_Dat.thy ===== *)
theory Nodes_Dat
  imports Prelude
begin

text \<open>
  The incremental parser of \<open>nodes.dat\<close> files (\<open>nodes_dat.c\<close>, \<open>nodes_dat.h\<close>) and the peers it
  builds (\<open>peer.h\<close>, \<open>peer.c\<close>). The heap maps addresses to \<open>struct kad_peer\<close>s; \<open>malloc\<close> is an
  argument that answers with \<open>errno\<close> or a fresh address. The byte order of the host is an argument too.
  Sizes are natural numbers, with the wrap-around of unsigned subtraction and of the conversion to
  \<open>int\<close> written out. A result \<open>None\<close> is an access outside an object or to freed memory.
\<close>

subsection \<open>Peers (peer.h)\<close>

datatype peer_route_type =
    PRT_DIRECT | PRT_SYM_NAT | PRT_FULL_CONE_NAT | PRT_REST_CONE_NAT | PRT_REST_PORT_NAT

text \<open>\<open>peer_id\<close> and \<open>peer_addrinfo\<close> are used by no function; the first holds 16 bytes.\<close>

record peer_id =
  pid_id :: bytes

record peer_addrinfo =
  pai_route_type :: peer_route_type
  pai_family :: int
  pai_socktype :: int
  pai_protocol :: int
  pai_addrlen :: size_t
  pai_addr :: "ptr option"
  pai_canonname :: "ptr option"
  pai_next :: "ptr option"

datatype peer_type = PT_KAD | PT_BT_DHT

record sockaddr_in =
  sin_family :: nat
  sin_port :: u16
  s_addr :: u32

definition AF_INET :: nat where
  "AF_INET = 2"

record peer =
  p_type :: peer_type
  p_next :: "ptr option"

record kad_peer =
  kp_peer :: peer
  kp_client_id :: bytes
  kp_kad_udp_key :: bytes
  kp_udp :: sockaddr_in
  kp_tcp :: sockaddr_in
  kp_verified :: byte
  kp_version :: byte

type_synonym heap = "ptr \<Rightarrow> kad_peer option"
type_synonym malloc = "heap \<Rightarrow> int + ptr"

text \<open>\<open>malloc\<close> answers with a positive \<open>errno\<close> or with an address that is not in use.\<close>

definition malloc_ok :: "malloc \<Rightarrow> bool" where
  "malloc_ok malloc \<longleftrightarrow> (\<forall>h. case malloc h of Inl e \<Rightarrow> 0 < e | Inr a \<Rightarrow> h a = None)"

text \<open>\<open>free_kad_peers\<close>: the next pointer is read before the peer is freed.\<close>

partial_function (option) free_kad_peers :: "heap \<Rightarrow> ptr option \<Rightarrow> heap option" where
  "free_kad_peers h peer =
     (case peer of
        None \<Rightarrow> Some h
      | Some a \<Rightarrow>
          (case h a of
             None \<Rightarrow> None
           | Some kp \<Rightarrow>
               (let tmp = p_next (kp_peer kp) in free_kad_peers (h(a := None)) tmp)))"

subsection \<open>Byte order\<close>

datatype endian = Little | Big

definition u16_of :: "endian \<Rightarrow> bytes \<Rightarrow> u16" where
  "u16_of e bs =
     (let a = ucast (bs ! 0); b = ucast (bs ! 1) in
      case e of Little \<Rightarrow> a + b * 256 | Big \<Rightarrow> b + a * 256)"

definition u32_of :: "endian \<Rightarrow> bytes \<Rightarrow> u32" where
  "u32_of e bs =
     (let a = ucast (bs ! 0); b = ucast (bs ! 1); c = ucast (bs ! 2); d = ucast (bs ! 3) in
      case e of Little \<Rightarrow> a + b * 256 + c * 65536 + d * 16777216
              | Big \<Rightarrow> d + c * 256 + b * 65536 + a * 16777216)"

text \<open>The bytes a host stores a 16-bit and a 32-bit value as.\<close>

definition bytes_of_u16 :: "endian \<Rightarrow> u16 \<Rightarrow> bytes" where
  "bytes_of_u16 e x =
     (let a = ucast x; b = ucast (drop_bit 8 x) in case e of Little \<Rightarrow> [a, b] | Big \<Rightarrow> [b, a])"

definition bytes_of_u32 :: "endian \<Rightarrow> u32 \<Rightarrow> bytes" where
  "bytes_of_u32 e x =
     (let bs = [ucast x, ucast (drop_bit 8 x), ucast (drop_bit 16 x), ucast (drop_bit 24 x)] in
      case e of Little \<Rightarrow> bs | Big \<Rightarrow> rev bs)"

text \<open>The functions of \<open>endian.h\<close> and \<open>arpa/inet.h\<close>: the identity or a swap of the bytes.\<close>

definition swap16 :: "u16 \<Rightarrow> u16" where
  "swap16 x = u16_of Big (bytes_of_u16 Little x)"

definition swap32 :: "u32 \<Rightarrow> u32" where
  "swap32 x = u32_of Big (bytes_of_u32 Little x)"

definition le16toh :: "endian \<Rightarrow> u16 \<Rightarrow> u16" where
  "le16toh e x = (case e of Little \<Rightarrow> x | Big \<Rightarrow> swap16 x)"

definition le32toh :: "endian \<Rightarrow> u32 \<Rightarrow> u32" where
  "le32toh e x = (case e of Little \<Rightarrow> x | Big \<Rightarrow> swap32 x)"

definition htons :: "endian \<Rightarrow> u16 \<Rightarrow> u16" where
  "htons e x = (case e of Little \<Rightarrow> swap16 x | Big \<Rightarrow> x)"

definition le16ton :: "endian \<Rightarrow> u16 \<Rightarrow> u16" where
  "le16ton e x = htons e (le16toh e x)"

subsection \<open>The packed structures of a file (nodes_dat.h)\<close>

text \<open>A structure is the object it occupies: 12, 34 and 25 bytes. Each field is the slice of its
  bytes, in the byte order of the host for the integers.\<close>

definition sizeof_nd_header :: nat where "sizeof_nd_header = 12"
definition sizeof_nd_entry :: nat where "sizeof_nd_entry = 34"
definition sizeof_nd_entry_v0 :: nat where "sizeof_nd_entry_v0 = 25"

definition nd_zero :: "endian \<Rightarrow> bytes \<Rightarrow> u32" where "nd_zero e hdr = u32_of e (view hdr 0 4)"
definition nd_version :: "endian \<Rightarrow> bytes \<Rightarrow> u32" where "nd_version e hdr = u32_of e (view hdr 4 4)"
definition nd_nr :: "endian \<Rightarrow> bytes \<Rightarrow> u32" where "nd_nr e hdr = u32_of e (view hdr 8 4)"

definition e_client_id :: "bytes \<Rightarrow> bytes" where "e_client_id en = view en 0 16"
definition e_ip_addr :: "endian \<Rightarrow> bytes \<Rightarrow> u32" where "e_ip_addr e en = u32_of e (view en 16 4)"
definition e_tcp_port :: "endian \<Rightarrow> bytes \<Rightarrow> u16" where "e_tcp_port e en = u16_of e (view en 20 2)"
definition e_udp_port :: "endian \<Rightarrow> bytes \<Rightarrow> u16" where "e_udp_port e en = u16_of e (view en 22 2)"
definition e_version :: "bytes \<Rightarrow> byte" where "e_version en = en ! 24"
definition e_kad_udp_key :: "bytes \<Rightarrow> bytes" where "e_kad_udp_key en = view en 25 8"
definition e_verified :: "bytes \<Rightarrow> byte" where "e_verified en = en ! 33"

text \<open>Where the next peer is linked: \<open>&npc->peers\<close> or \<open>&p->next\<close>.\<close>

datatype tail_ref = Tail_peers | Tail_next ptr

record nd_parse_ctx =
  head_pos :: nat
  header_parsed :: bool
  head :: bytes
  version :: u32 \<comment> \<open>an \<open>int\<close>, compared with 0 and 2 only\<close>
  peers :: "ptr option"
  tail :: tail_ref
  nr_consumed :: nat
  nr_total :: nat
  error :: int
  cur_e :: bytes \<comment> \<open>the union of \<open>cur_e\<close> and \<open>cur_e_v0\<close>\<close>
  cur_e_pos :: nat

subsection \<open>Integers\<close>

definition size_sub :: "nat \<Rightarrow> nat \<Rightarrow> nat" where
  "size_sub a b = (a + 2 ^ 64 - b) mod 2 ^ 64"

definition to_int :: "nat \<Rightarrow> int" where
  "to_int n = sint (of_nat n :: 32 word)"

definition EINVAL :: int where
  "EINVAL = 22"

subsection \<open>The parser (nodes_dat.c)\<close>

text \<open>The context is uninitialised before \<open>nd_parse_init\<close>: \<open>head\<close> and \<open>cur_e\<close> keep what was there.\<close>

definition nd_parse_init :: "nd_parse_ctx \<Rightarrow> int \<times> nd_parse_ctx" where
  "nd_parse_init npc =
     (0, npc\<lparr>head_pos := 0, header_parsed := False, version := 0, peers := None, tail := Tail_peers,
        nr_consumed := 0, nr_total := 0, error := 0, cur_e_pos := 0\<rparr>)"

definition mk_kad_peer :: "malloc \<Rightarrow> endian \<Rightarrow> heap \<Rightarrow> bytes \<Rightarrow> int + (ptr \<times> heap)" where
  "mk_kad_peer malloc e h entry =
     (case malloc h of
        Inl errno \<Rightarrow> Inl errno
      | Inr a \<Rightarrow> Inr (a, h(a \<mapsto>
          \<lparr>kp_peer = \<lparr>p_type = PT_KAD, p_next = None\<rparr>,
           kp_client_id = e_client_id entry,
           kp_kad_udp_key = e_kad_udp_key entry,
           kp_udp = \<lparr>sin_family = AF_INET, sin_port = le16ton e (e_udp_port e entry), s_addr = e_ip_addr e entry\<rparr>,
           kp_tcp = \<lparr>sin_family = AF_INET, sin_port = le16ton e (e_tcp_port e entry), s_addr = e_ip_addr e entry\<rparr>,
           kp_verified = e_verified entry,
           kp_version = e_version entry\<rparr>)))"

definition mk_kad_peer_v0 :: "malloc \<Rightarrow> endian \<Rightarrow> heap \<Rightarrow> bytes \<Rightarrow> int + (ptr \<times> heap)" where
  "mk_kad_peer_v0 malloc e h entry =
     (case malloc h of
        Inl errno \<Rightarrow> Inl errno
      | Inr a \<Rightarrow> Inr (a, h(a \<mapsto>
          \<lparr>kp_peer = \<lparr>p_type = PT_KAD, p_next = None\<rparr>,
           kp_client_id = e_client_id entry,
           kp_kad_udp_key = replicate 8 0,
           kp_udp = \<lparr>sin_family = AF_INET, sin_port = le16ton e (e_udp_port e entry), s_addr = e_ip_addr e entry\<rparr>,
           kp_tcp = \<lparr>sin_family = AF_INET, sin_port = le16ton e (e_tcp_port e entry), s_addr = e_ip_addr e entry\<rparr>,
           kp_verified = 0,
           kp_version = 0\<rparr>)))"

text \<open>The second half of \<open>header_parser\<close>: the rest of a header that starts with zero.\<close>

definition header_rest :: "endian \<Rightarrow> nd_parse_ctx \<Rightarrow> bytes \<Rightarrow> nat \<Rightarrow> nat \<Rightarrow> (nat \<times> nd_parse_ctx) option" where
  "header_rest e npc buf len consumed =
     (if head_pos npc \<ge> 4 then do {
        let cpy_sz = min len (size_sub sizeof_nd_header (head_pos npc));
        hdr \<leftarrow> memcpy (head npc) (head_pos npc) buf cpy_sz;
        let npc = npc\<lparr>head := hdr, head_pos := head_pos npc + cpy_sz\<rparr>;
        let consumed = consumed + cpy_sz;
        Some (consumed,
          if head_pos npc \<ge> sizeof_nd_header
          then npc\<lparr>version := le32toh e (nd_version e hdr), nr_total := unat (le32toh e (nd_nr e hdr)),
                   header_parsed := True\<rparr>
          else npc)
      }
      else Some (consumed, npc))"

definition header_parser :: "endian \<Rightarrow> nd_parse_ctx \<Rightarrow> bytes \<Rightarrow> nat \<Rightarrow> (nat \<times> nd_parse_ctx) option" where
  "header_parser e npc buf len =
     (if head_pos npc < 4 then do {
        let cpy_sz = min len (size_sub 4 (head_pos npc));
        hdr \<leftarrow> memcpy (head npc) (head_pos npc) buf cpy_sz;
        let npc = npc\<lparr>head := hdr, head_pos := head_pos npc + cpy_sz\<rparr>;
        if head_pos npc \<ge> 4 then
          if nd_zero e hdr \<noteq> 0 then
            Some (cpy_sz, npc\<lparr>version := 0, nr_total := unat (le32toh e (nd_zero e hdr)), header_parsed := True\<rparr>)
          else header_rest e npc (drop cpy_sz buf) (size_sub len cpy_sz) cpy_sz
        else header_rest e npc buf len cpy_sz
      }
      else header_rest e npc buf len 0)"

text \<open>\<open>*(npc->tail) = p; npc->tail = &(p->next)\<close>.\<close>

definition link_peer :: "heap \<Rightarrow> nd_parse_ctx \<Rightarrow> ptr \<Rightarrow> (heap \<times> nd_parse_ctx) option" where
  "link_peer h npc p =
     (case tail npc of
        Tail_peers \<Rightarrow> Some (h, npc\<lparr>peers := Some p, tail := Tail_next p\<rparr>)
      | Tail_next a \<Rightarrow>
          (case h a of
             None \<Rightarrow> None
           | Some kp \<Rightarrow> Some (h(a \<mapsto> kp\<lparr>kp_peer := (kp_peer kp)\<lparr>p_next := Some p\<rparr>\<rparr>), npc\<lparr>tail := Tail_next p\<rparr>)))"

text \<open>The loop over the entries; \<open>nr\<close> and \<open>nr_total\<close> are \<open>uint32_t\<close>.\<close>

function nd_entries ::
  "malloc \<Rightarrow> endian \<Rightarrow> nat \<Rightarrow> nat \<Rightarrow> heap \<Rightarrow> nd_parse_ctx \<Rightarrow> bytes \<Rightarrow> nat \<Rightarrow> nat \<Rightarrow> nat \<Rightarrow> nat \<Rightarrow>
     (int \<times> heap \<times> nd_parse_ctx) option" where
  "nd_entries malloc e goal_len nr_tot h npc buf len consumed nr pos =
     (if nr < nr_tot then do {
        let rem = size_sub goal_len pos;
        let cpy_len = min rem len;
        cur \<leftarrow> memcpy (cur_e npc) pos buf cpy_len;
        let npc = npc\<lparr>cur_e := cur\<rparr>;
        let pos = pos + cpy_len;
        let len = size_sub len cpy_len;
        let buf = drop cpy_len buf;
        if pos = goal_len then
          (case (if version npc \<noteq> 0 then mk_kad_peer malloc e h (cur_e npc)
                 else mk_kad_peer_v0 malloc e h (cur_e npc)) of
             Inl errno \<Rightarrow> Some (to_int consumed, h, npc\<lparr>error := - errno, nr_consumed := nr, cur_e_pos := 0\<rparr>)
           | Inr (p, h) \<Rightarrow> do {
               (h, npc) \<leftarrow> link_peer h npc p;
               nd_entries malloc e goal_len nr_tot h npc buf len (consumed + cpy_len) (nr + 1) 0
             })
        else Some (to_int (consumed + cpy_len), h, npc\<lparr>cur_e_pos := pos, nr_consumed := nr\<rparr>)
      }
      else Some (to_int consumed, h, npc))"
  by pat_completeness auto
termination
  by (relation "measure (\<lambda>(malloc, e, goal_len, nr_tot, h, npc, buf, len, consumed, nr, pos). nr_tot - nr)") auto

declare nd_entries.simps [simp del]

text \<open>What follows the header in \<open>nd_parse_proc\<close>.\<close>

definition nd_parse_body ::
  "malloc \<Rightarrow> endian \<Rightarrow> heap \<Rightarrow> nd_parse_ctx \<Rightarrow> bytes \<Rightarrow> nat \<Rightarrow> nat \<Rightarrow> (int \<times> heap \<times> nd_parse_ctx) option" where
  "nd_parse_body malloc e h npc buf len consumed =
     (if version npc = 0 then
        nd_entries malloc e sizeof_nd_entry_v0 (nr_total npc mod 2 ^ 32) h npc buf len consumed
          (nr_consumed npc mod 2 ^ 32) (cur_e_pos npc)
      else if version npc = 2 then
        nd_entries malloc e sizeof_nd_entry (nr_total npc mod 2 ^ 32) h npc buf len consumed
          (nr_consumed npc mod 2 ^ 32) (cur_e_pos npc)
      else (let npc = npc\<lparr>error := - EINVAL\<rparr> in Some (error npc, h, npc)))"

definition nd_parse_proc ::
  "malloc \<Rightarrow> endian \<Rightarrow> heap \<Rightarrow> nd_parse_ctx \<Rightarrow> bytes \<Rightarrow> nat \<Rightarrow> (int \<times> heap \<times> nd_parse_ctx) option" where
  "nd_parse_proc malloc e h npc buf len =
     (if error npc < 0 then Some (error npc, h, npc)
      else if len = 0 then Some (0, h, npc)
      else if \<not> header_parsed npc then do {
        (r, npc) \<leftarrow> header_parser e npc buf len;
        if \<not> header_parsed npc then Some (to_int r, h, npc)
        else nd_parse_body malloc e h npc (drop r buf) (size_sub len r) r
      }
      else nd_parse_body malloc e h npc buf len 0)"

definition nd_parse_get_peers :: "nd_parse_ctx \<Rightarrow> ptr option \<times> nd_parse_ctx" where
  "nd_parse_get_peers npc = (peers npc, npc\<lparr>peers := None, tail := Tail_peers\<rparr>)"

definition nd_parse_destroy :: "heap \<Rightarrow> nd_parse_ctx \<Rightarrow> (heap \<times> nd_parse_ctx) option" where
  "nd_parse_destroy h npc = do {
     h \<leftarrow> free_kad_peers h (peers npc);
     Some (h, npc\<lparr>peers := None, tail := Tail_peers\<rparr>)
   }"

end
