(* ===== verification/Nodes_Heap.thy ===== *)
theory Nodes_Heap
  imports Nodes_Dat
begin

text \<open>
  The peers of a \<open>nodes.dat\<close> parser as lists in the heap, freeing them, and what a peer says
  (a \<open>contact\<close>) whatever the byte order of the host.
\<close>

subsection \<open>Lists of peers\<close>

fun peer_list :: "heap \<Rightarrow> ptr option \<Rightarrow> ptr list \<Rightarrow> bool" where
  "peer_list h p [] \<longleftrightarrow> p = None"
| "peer_list h p (a # as) \<longleftrightarrow> p = Some a \<and> (\<exists>kp. h a = Some kp \<and> peer_list h (p_next (kp_peer kp)) as)"

lemma peer_list_frame: "peer_list h p as \<Longrightarrow> (\<And>a. a \<in> set as \<Longrightarrow> h' a = h a) \<Longrightarrow> peer_list h' p as"
  by (induction as arbitrary: p) auto

lemma peer_list_dom: "peer_list h p as \<Longrightarrow> set as \<subseteq> dom h"
  by (induction as arbitrary: p) auto

lemma peer_list_unique: "peer_list h p as \<Longrightarrow> peer_list h p bs \<Longrightarrow> as = bs"
proof (induction as arbitrary: p bs)
  case Nil
  then show ?case by (cases bs) auto
next
  case (Cons a as)
  then show ?case by (cases bs) auto
qed

lemma restrict_free: "(h(a := None)) |` (- A) = h |` (- insert a A)"
  by (auto simp: restrict_map_def)

text \<open>Freeing a list frees its peers, every one once, and nothing else.\<close>

lemma free_list: "peer_list h p as \<Longrightarrow> distinct as \<Longrightarrow> free_kad_peers h p = Some (h |` (- set as))"
proof (induction as arbitrary: h p)
  case Nil
  then show ?case by (simp add: free_kad_peers.simps)
next
  case (Cons a as)
  then obtain kp where kp: "p = Some a" "h a = Some kp" "peer_list h (p_next (kp_peer kp)) as"
    by auto
  have "peer_list (h(a := None)) (p_next (kp_peer kp)) as"
    by (rule peer_list_frame [OF kp(3)]) (use Cons.prems(2) in auto)
  from Cons.IH [OF this] Cons.prems(2)
  have "free_kad_peers (h(a := None)) (p_next (kp_peer kp)) = Some (h |` (- set (a # as)))"
    by (simp only: distinct.simps restrict_free list.set simp_thms)
  with kp show ?case
    by (subst free_kad_peers.simps) (simp add: Let_def)
qed

subsection \<open>The list a context builds\<close>

definition ctx_list :: "heap \<Rightarrow> nd_parse_ctx \<Rightarrow> ptr list \<Rightarrow> bool" where
  "ctx_list h npc as \<longleftrightarrow> peer_list h (peers npc) as \<and> distinct as \<and>
     tail npc = (if as = [] then Tail_peers else Tail_next (last as))"

text \<open>The fields of a peer but its link.\<close>

definition kad_val :: "kad_peer \<Rightarrow> kad_peer" where
  "kad_val kp = kp\<lparr>kp_peer := (kp_peer kp)\<lparr>p_next := None\<rparr>\<rparr>"

definition same_vals :: "heap \<Rightarrow> heap \<Rightarrow> bool" where
  "same_vals h h' \<longleftrightarrow> (\<forall>a. map_option kad_val (h' a) = map_option kad_val (h a))"

lemma kad_val_link: "kad_val (kp\<lparr>kp_peer := (kp_peer kp)\<lparr>p_next := q\<rparr>\<rparr>) = kad_val kp"
  by (simp add: kad_val_def)

lemma peer_list_snoc:
  assumes "peer_list h p as" "as \<noteq> []" "distinct as" "h (last as) = Some kp" "b \<notin> set as"
    "h b = Some kb" "p_next (kp_peer kb) = None"
  shows "peer_list (h(last as \<mapsto> kp\<lparr>kp_peer := (kp_peer kp)\<lparr>p_next := Some b\<rparr>\<rparr>)) p (as @ [b])"
  using assms
proof (induction as arbitrary: p)
  case (Cons a as)
  show ?case
  proof (cases "as = []")
    case True
    with Cons.prems show ?thesis by auto
  next
    case False
    then have last: "last (a # as) = last as" by simp
    obtain ka where ka: "p = Some a" "h a = Some ka" "peer_list h (p_next (kp_peer ka)) as"
      using Cons.prems(1) by auto
    moreover have "a \<noteq> last as" using Cons.prems(3) False by auto
    ultimately show ?thesis
      using Cons.IH [OF ka(3) False] Cons.prems(3-7) last by simp
  qed
qed simp

lemma link_peer_list:
  assumes "ctx_list h npc as" "p \<notin> set as" "h p = Some kp" "p_next (kp_peer kp) = None"
  obtains h' npc' where "link_peer h npc p = Some (h', npc')" "ctx_list h' npc' (as @ [p])" "same_vals h h'"
    "npc' = npc\<lparr>peers := peers npc', tail := tail npc'\<rparr>" "\<And>a. a \<notin> set as \<Longrightarrow> h' a = h a"
proof (cases "as = []")
  case True
  with assms that [of h "npc\<lparr>peers := Some p, tail := Tail_next p\<rparr>"] show thesis
    by (simp add: ctx_list_def link_peer_def same_vals_def)
next
  case False
  with assms(1) have l: "peer_list h (peers npc) as" "distinct as" "tail npc = Tail_next (last as)"
    by (simp_all add: ctx_list_def)
  then obtain kl where kl: "h (last as) = Some kl"
    using peer_list_dom [OF l(1)] last_in_set [OF False] by blast
  let ?h = "h(last as \<mapsto> kl\<lparr>kp_peer := (kp_peer kl)\<lparr>p_next := Some p\<rparr>\<rparr>)"
  have "peer_list ?h (peers npc) (as @ [p])"
    using l(1) False l(2) kl assms(2-4) by (rule peer_list_snoc)
  moreover have "same_vals h ?h"
    using kl by (simp add: same_vals_def kad_val_link)
  moreover have "?h a = h a" if "a \<notin> set as" for a
    using that last_in_set [OF False] by auto
  ultimately show thesis
    using l kl assms(2) False
    by (intro that [of ?h "npc\<lparr>tail := Tail_next p\<rparr>"]) (simp_all add: ctx_list_def link_peer_def)
qed

lemma nd_parse_init_list: "nd_parse_init npc = (0, npc') \<Longrightarrow> ctx_list h npc' []"
  by (auto simp: nd_parse_init_def ctx_list_def)

lemma nd_parse_get_peers_list:
  assumes "ctx_list h npc as" "nd_parse_get_peers npc = (p, npc')"
  shows "peer_list h p as \<and> distinct as \<and> ctx_list h npc' []"
  using assms by (auto simp: nd_parse_get_peers_def ctx_list_def)

lemma nd_parse_destroy_list:
  assumes "ctx_list h npc as"
  obtains npc' where "nd_parse_destroy h npc = Some (h |` (- set as), npc')" "ctx_list (h |` (- set as)) npc' []"
  using assms free_list [of h "peers npc" as] by (simp add: nd_parse_destroy_def ctx_list_def)

subsection \<open>Byte order\<close>

lemma unat_u16_Little: "unat (u16_of Little [a, b]) = unat a + unat b * 256"
proof -
  have "unat a < 256" "unat b < 256"
    using unsigned_less [of a] unsigned_less [of b] by simp_all
  then show ?thesis
    by (simp add: u16_of_def unat_word_ariths unsigned_ucast_eq take_bit_eq_mod)
qed

lemma u16_Big: "u16_of Big [a, b] = u16_of Little [b, a]"
  by (simp add: u16_of_def)

lemma bytes_u16: "bytes_of_u16 e (u16_of e [a, b]) = [a, b]"
proof -
  have l: "unat x < 256" for x :: byte
    using unsigned_less [of x] by simp
  have "bytes_of_u16 Little (u16_of Little [a, b]) = [a, b]" for a b
    using l [of a] l [of b]
    by (simp add: bytes_of_u16_def word_unat_eq_iff unsigned_ucast_eq unat_u16_Little take_bit_eq_mod
        unsigned_drop_bit_eq drop_bit_eq_div [where 'a = nat])
  then show ?thesis
    by (cases e) (simp_all add: u16_Big, simp add: bytes_of_u16_def Let_def)
qed

lemma swap16_u16: "swap16 (u16_of Little [a, b]) = u16_of Little [b, a]"
  by (simp add: swap16_def bytes_u16 u16_Big)

text \<open>A port of the file, read in any byte order and converted by \<open>le16ton\<close>, is stored in network order.\<close>

lemma le16ton_network: "bytes_of_u16 e (le16ton e (u16_of e [a, b])) = [b, a]"
proof (cases e)
  case Little
  then show ?thesis by (simp add: le16ton_def le16toh_def htons_def swap16_u16 bytes_u16)
next
  case Big
  then have "le16ton e (u16_of e [a, b]) = u16_of e [b, a]"
    by (simp add: le16ton_def le16toh_def htons_def swap16_u16 u16_Big)
  then show ?thesis by (simp add: bytes_u16)
qed

lemma unat_u32_Little: "unat (u32_of Little [a, b, c, d]) = unat a + unat b * 256 + unat c * 65536 + unat d * 16777216"
proof -
  have "unat a < 256" "unat b < 256" "unat c < 256" "unat d < 256"
    using unsigned_less [of a] unsigned_less [of b] unsigned_less [of c] unsigned_less [of d] by simp_all
  then show ?thesis
    by (simp add: u32_of_def unat_word_ariths unsigned_ucast_eq take_bit_eq_mod)
qed

lemma u32_Big: "u32_of Big [a, b, c, d] = u32_of Little [d, c, b, a]"
  by (simp add: u32_of_def)

lemma digits_256:
  fixes a b c d :: nat
  assumes "a < 256" "b < 256" "c < 256" "d < 256"
  shows "(a + b * 256 + c * 65536 + d * 16777216) mod 256 = a"
    and "(a + b * 256 + c * 65536 + d * 16777216) div 256 mod 256 = b"
    and "(a + b * 256 + c * 65536 + d * 16777216) div 65536 mod 256 = c"
    and "(a + b * 256 + c * 65536 + d * 16777216) div 16777216 mod 256 = d"
proof -
  have digit: "x < 256 \<Longrightarrow> (x + 256 * y) mod 256 = x" "x < 256 \<Longrightarrow> (x + 256 * y) div 256 = y" for x y :: nat
    by simp_all
  have n: "a + b * 256 + c * 65536 + d * 16777216 = a + 256 * (b + 256 * (c + 256 * d))"
    by simp
  have "65536 = 256 * (256 :: nat)" "16777216 = 256 * (256 * (256 :: nat))" by simp_all
  note div = this
  show "(a + b * 256 + c * 65536 + d * 16777216) mod 256 = a"
    unfolding n by (rule digit(1) [OF assms(1)])
  show "(a + b * 256 + c * 65536 + d * 16777216) div 256 mod 256 = b"
    unfolding n digit(2) [OF assms(1)] by (rule digit(1) [OF assms(2)])
  have "(a + b * 256 + c * 65536 + d * 16777216) div 65536 = c + 256 * d"
    unfolding n unfolding div div_mult2_eq digit(2) [OF assms(1)] digit(2) [OF assms(2)] ..
  then show "(a + b * 256 + c * 65536 + d * 16777216) div 65536 mod 256 = c"
    using digit(1) [OF assms(3)] by simp
  have "(a + b * 256 + c * 65536 + d * 16777216) div 16777216 = d"
    unfolding n unfolding div div_mult2_eq digit(2) [OF assms(1)] digit(2) [OF assms(2)] digit(2) [OF assms(3)] ..
  then show "(a + b * 256 + c * 65536 + d * 16777216) div 16777216 mod 256 = d"
    using assms(4) by simp
qed

lemma bytes_u32: "bytes_of_u32 e (u32_of e [a, b, c, d]) = [a, b, c, d]"
proof -
  have l: "unat x < 256" for x :: byte
    using unsigned_less [of x] by simp
  have "bytes_of_u32 Little (u32_of Little [a, b, c, d]) = [a, b, c, d]" for a b c d
    using l [of a] l [of b] l [of c] l [of d]
    by (simp add: bytes_of_u32_def word_unat_eq_iff unsigned_ucast_eq unat_u32_Little take_bit_eq_mod
        unsigned_drop_bit_eq drop_bit_eq_div [where 'a = nat] digits_256)
  then show ?thesis
    by (cases e) (simp_all add: u32_Big, simp add: bytes_of_u32_def Let_def)
qed

lemma le32toh_u32: "le32toh e (u32_of e [a, b, c, d]) = u32_of Little [a, b, c, d]"
  by (cases e) (simp_all add: le32toh_def swap32_def u32_Big bytes_u32)

subsection \<open>What a peer says\<close>

text \<open>The identifiers and flags, the bytes of the address as a socket sends them, the ports as
  numbers.\<close>

record contact =
  c_id :: bytes
  c_key :: bytes
  c_ip :: bytes
  c_tcp :: nat
  c_udp :: nat
  c_verified :: byte
  c_version :: byte
  c_inet :: bool

definition net16 :: "bytes \<Rightarrow> nat" where
  "net16 bs = unat (bs ! 0) * 256 + unat (bs ! 1)"

definition contact_of :: "endian \<Rightarrow> kad_peer \<Rightarrow> contact" where
  "contact_of e kp =
     \<lparr>c_id = kp_client_id kp, c_key = kp_kad_udp_key kp, c_ip = bytes_of_u32 e (s_addr (kp_tcp kp)),
      c_tcp = net16 (bytes_of_u16 e (sin_port (kp_tcp kp))),
      c_udp = net16 (bytes_of_u16 e (sin_port (kp_udp kp))),
      c_verified = kp_verified kp, c_version = kp_version kp,
      c_inet = (sin_family (kp_tcp kp) = AF_INET \<and> sin_family (kp_udp kp) = AF_INET)\<rparr>"

text \<open>The contact an entry of a file describes: the address in network order, the ports in
  little endian, no key in version 0.\<close>

definition le16 :: "bytes \<Rightarrow> nat" where
  "le16 bs = unat (bs ! 0) + unat (bs ! 1) * 256"

definition decode_entry :: "u32 \<Rightarrow> bytes \<Rightarrow> contact" where
  "decode_entry ver en =
     \<lparr>c_id = take 16 en, c_key = (if ver = 0 then replicate 8 0 else take 8 (drop 25 en)),
      c_ip = take 4 (drop 16 en), c_tcp = le16 (drop 20 en), c_udp = le16 (drop 22 en),
      c_verified = (if ver = 0 then 0 else en ! 33), c_version = (if ver = 0 then 0 else en ! 24),
      c_inet = True\<rparr>"

lemma contact_of_val: "contact_of e (kad_val kp) = contact_of e kp"
  by (simp add: contact_of_def kad_val_def)

lemma view_2: "k + 1 < length en \<Longrightarrow> view en k 2 = [en ! k, en ! (k + 1)]"
  by (simp add: view_Suc inside_def view_0 numeral_2_eq_2)

lemma view_4: "k + 3 < length en \<Longrightarrow> view en k 4 = [en ! k, en ! (k + 1), en ! (k + 2), en ! (k + 3)]"
  by (simp add: view_Suc inside_def view_0 eval_nat_numeral)

lemma port_entry: "k + 1 < length en \<Longrightarrow> net16 (bytes_of_u16 e (le16ton e (u16_of e (view en k 2)))) = le16 (drop k en)"
  by (simp add: view_2 le16ton_network net16_def le16_def)

lemma addr_entry: "k + 3 < length en \<Longrightarrow> bytes_of_u32 e (u32_of e (view en k 4)) = take 4 (drop k en)"
  by (simp add: view_4 bytes_u32) (simp add: view_4 [unfolded view_def])

text \<open>The peer made for an entry says what the entry says, on every host.\<close>

lemmas entry_fields =
  e_client_id_def e_kad_udp_key_def e_ip_addr_def e_tcp_port_def e_udp_port_def e_version_def
  e_verified_def port_entry addr_entry

lemma mk_kad_peer_contact:
  assumes "34 \<le> length en" "malloc h = Inr a"
  shows "\<exists>kp. mk_kad_peer malloc e h en = Inr (a, h(a \<mapsto> kp)) \<and> p_next (kp_peer kp) = None \<and>
    contact_of e kp = decode_entry 2 en"
  unfolding mk_kad_peer_def assms(2) sum.case
  by (intro exI conjI, rule refl)
     (use assms(1) in \<open>simp_all add: contact_of_def decode_entry_def entry_fields, simp_all add: view_def\<close>)

lemma mk_kad_peer_v0_contact:
  assumes "25 \<le> length en" "malloc h = Inr a"
  shows "\<exists>kp. mk_kad_peer_v0 malloc e h en = Inr (a, h(a \<mapsto> kp)) \<and> p_next (kp_peer kp) = None \<and>
    contact_of e kp = decode_entry 0 en"
  unfolding mk_kad_peer_v0_def assms(2) sum.case
  by (intro exI conjI, rule refl)
     (use assms(1) in \<open>simp_all add: contact_of_def decode_entry_def entry_fields, simp_all add: view_def\<close>)

end
