(* ===== verification/Nodes_Parsing.thy ===== *)
theory Nodes_Parsing
  imports Nodes_Heap
begin

text \<open>
  What the parser of \<open>nodes_dat.c\<close> does, call by call: the header, one round of the loop over the
  entries, and from them that every call stays inside its objects and keeps the list of peers.
\<close>

subsection \<open>Sizes and copies\<close>

lemma size_sub_le: "b \<le> a \<Longrightarrow> a < 2 ^ 64 \<Longrightarrow> size_sub a b = a - b"
proof -
  assume a: "b \<le> a" "a < 2 ^ 64"
  then have "size_sub a b = (a - b + 2 ^ 64) mod 2 ^ 64"
    by (simp add: size_sub_def)
  also have "\<dots> = (a - b) mod 2 ^ 64" by (rule mod_add_self2)
  also have "\<dots> = a - b" using a by (intro mod_less) linarith
  finally show ?thesis .
qed

lemma to_int_small: "n \<le> INT_MAX \<Longrightarrow> to_int n = int n"
proof -
  assume "n \<le> INT_MAX"
  then have "int n < 2147483648" unfolding INT_MAX_def by simp
  then have "signed_take_bit 31 (int n) = int n"
    by (intro signed_take_bit_int_eq_self) simp_all
  then show ?thesis by (simp add: to_int_def signed_of_nat)
qed

text \<open>Copying behind the valid part of an object extends the valid part.\<close>

lemma memcpy_extends:
  assumes "n \<le> length src" "off + n \<le> length dst"
  obtains d where "memcpy dst off src n = Some d" "length d = length dst"
    "take (off + n) d = take off dst @ take n src"
  using assms by (simp add: memcpy_def)

subsection \<open>The header\<close>

definition le32 :: "bytes \<Rightarrow> u32" where
  "le32 bs = u32_of Little (take 4 bs)"

lemma take_4: "4 \<le> length (bs :: bytes) \<Longrightarrow> take 4 bs = [bs ! 0, bs ! 1, bs ! 2, bs ! 3]"
  using view_4 [of 0 bs] by (simp add: view_def numeral_eq_Suc)

lemma le32toh_view: "k + 4 \<le> length c \<Longrightarrow> le32toh e (u32_of e (view c k 4)) = le32 (drop k c)"
  by (simp add: view_4 le32toh_u32 le32_def) (simp add: take_4)

lemma u32_zero: "u32_of e [a, b, c, d] = 0 \<longleftrightarrow> u32_of Little [a, b, c, d] = 0"
  by (cases e) (auto simp: u32_Big unat_eq_0 [symmetric] unat_u32_Little)

lemma nd_zero_le32: "4 \<le> length c \<Longrightarrow> nd_zero e c = 0 \<longleftrightarrow> le32 c = 0"
  using view_4 [of 0 c] by (simp add: nd_zero_def u32_zero [of e] le32_def view_def)

lemma le32_take: "4 \<le> n \<Longrightarrow> le32 (take n bs) = le32 bs"
  by (simp add: le32_def min_absorb1)

text \<open>\<open>data\<close> is the header read so far and the buffer.\<close>

definition header_data :: "nd_parse_ctx \<Rightarrow> bytes \<Rightarrow> nat \<Rightarrow> bytes" where
  "header_data npc buf len = take (head_pos npc) (head npc) @ take len buf"

definition header_ok :: "nd_parse_ctx \<Rightarrow> bool" where
  "header_ok npc \<longleftrightarrow> length (head npc) = 12 \<and> head_pos npc < 12 \<and> (4 \<le> head_pos npc \<longrightarrow> le32 (head npc) = 0)"

lemma header_rest_eq:
  assumes "length (head npc) = 12" "head_pos npc < 12" "4 \<le> head_pos npc" "len \<le> length buf" "len < 2 ^ 64"
  obtains c where "length c = 12"
    "take (min 12 (head_pos npc + len)) c = take 12 (header_data npc buf len)"
    "header_rest e npc buf len consumed =
       (if head_pos npc + len < 12
        then Some (consumed + len, npc\<lparr>head := c, head_pos := head_pos npc + len\<rparr>)
        else Some (consumed + (12 - head_pos npc),
          npc\<lparr>head := c, head_pos := 12, version := le32 (drop 4 c), nr_total := unat (le32 (drop 8 c)),
              header_parsed := True\<rparr>))"
proof -
  let ?n = "min len (12 - head_pos npc)"
  from assms have "?n \<le> length buf" "head_pos npc + ?n \<le> length (head npc)" by auto
  then obtain c where c: "memcpy (head npc) (head_pos npc) buf ?n = Some c" "length c = 12"
      "take (head_pos npc + ?n) c = take (head_pos npc) (head npc) @ take ?n buf"
    using assms(1) by (metis memcpy_extends)
  have sub: "size_sub 12 (head_pos npc) = 12 - head_pos npc"
    using assms(2) by (simp add: size_sub_le)
  have pos: "head_pos npc + ?n = min 12 (head_pos npc + len)" using assms(2) by auto
  have "take 12 (header_data npc buf len) = take (head_pos npc) (head npc) @ take ?n buf"
    using assms(1,2) by (simp add: header_data_def min_def)
  with c pos have "take (min 12 (head_pos npc + len)) c = take 12 (header_data npc buf len)" by simp
  moreover have "header_rest e npc buf len consumed =
       (if head_pos npc + len < 12
        then Some (consumed + len, npc\<lparr>head := c, head_pos := head_pos npc + len\<rparr>)
        else Some (consumed + (12 - head_pos npc),
          npc\<lparr>head := c, head_pos := 12, version := le32 (drop 4 c), nr_total := unat (le32 (drop 8 c)),
              header_parsed := True\<rparr>))"
  proof (cases "head_pos npc + len < 12")
    case True
    then have n: "?n = len" by simp
    with True c(1) show ?thesis
      by (simp add: header_rest_def sizeof_nd_header_def sub assms(3))
  next
    case False
    then have n: "?n = 12 - head_pos npc" by simp
    with False c(1,2) assms(2) show ?thesis
      by (simp add: header_rest_def sizeof_nd_header_def sub assms(3) nd_version_def nd_nr_def le32toh_view)
  qed
  ultimately show thesis using that c(2) by blast
qed

text \<open>A call of \<open>header_parser\<close>: the header goes on, or is that of version 0, or is complete.\<close>

lemma header_parser_cases:
  assumes "header_ok npc" "len \<le> length buf" "len < 2 ^ 64"
  defines "data \<equiv> header_data npc buf len"
  obtains (more) c where "length data < 12" "length data < 4 \<or> le32 data = 0"
      "length c = 12" "take (length data) c = data"
      "header_parser e npc buf len = Some (len, npc\<lparr>head := c, head_pos := length data\<rparr>)"
    | (v0) c where "head_pos npc < 4" "4 \<le> length data" "le32 data \<noteq> 0" "length c = 12"
      "header_parser e npc buf len = Some (4 - head_pos npc,
         npc\<lparr>head := c, head_pos := 4, version := 0, nr_total := unat (le32 data), header_parsed := True\<rparr>)"
    | (full) c where "12 \<le> length data" "le32 data = 0" "length c = 12"
      "header_parser e npc buf len = Some (12 - head_pos npc,
         npc\<lparr>head := c, head_pos := 12, version := le32 (drop 4 data), nr_total := unat (le32 (drop 8 data)),
             header_parsed := True\<rparr>)"
proof -
  let ?p = "head_pos npc"
  from assms(1) have h: "length (head npc) = 12" "?p < 12" "4 \<le> ?p \<Longrightarrow> le32 (head npc) = 0"
    by (simp_all add: header_ok_def)
  have len: "length data = ?p + len"
    using h(1,2) assms(2) by (simp add: data_def header_data_def)
  note cases = more v0 full
  have rest: thesis
    if c0: "length c0 = 12" "take q c0 = take q data" "4 \<le> q" "q < 12" "q + n = length data" "k + n = len" "le32 data = 0"
      and k: "drop k buf = buf'" "take q data @ take n buf' = data"
      and eq: "header_parser e npc buf len = header_rest e (npc\<lparr>head := c0, head_pos := q\<rparr>) buf' n k"
    for c0 q n k buf'
  proof -
    let ?npc = "npc\<lparr>head := c0, head_pos := q\<rparr>"
    have a: "length (head ?npc) = 12" "head_pos ?npc < 12" "4 \<le> head_pos ?npc"
      using c0 by simp_all
    have b: "n \<le> length buf'" "n < 2 ^ 64"
      using c0(6) k(1) assms(2,3) by auto
    from header_rest_eq [OF a b, of e k] obtain c where c': "length c = 12"
      "take (min 12 (head_pos ?npc + n)) c = take 12 (header_data ?npc buf' n)"
      "header_rest e ?npc buf' n k = (if head_pos ?npc + n < 12
        then Some (k + n, ?npc\<lparr>head := c, head_pos := head_pos ?npc + n\<rparr>)
        else Some (k + (12 - head_pos ?npc),
          ?npc\<lparr>head := c, head_pos := 12, version := le32 (drop 4 c), nr_total := unat (le32 (drop 8 c)),
              header_parsed := True\<rparr>))"
      by blast
    then have c: "length c = 12" "take (min 12 (q + n)) c = take 12 (header_data ?npc buf' n)"
      "header_rest e ?npc buf' n k = (if q + n < 12
        then Some (k + n, npc\<lparr>head := c, head_pos := q + n\<rparr>)
        else Some (k + (12 - q),
          npc\<lparr>head := c, head_pos := 12, version := le32 (drop 4 c), nr_total := unat (le32 (drop 8 c)),
              header_parsed := True\<rparr>))"
      by simp_all
    have data: "header_data ?npc buf' n = data"
      using c0(2) k(2) by (simp add: header_data_def)
    show thesis
    proof (cases "q + n < 12")
      case True
      with c data c0 len show thesis
        by (intro cases(1) [of c]) (simp_all add: eq)
    next
      case False
      with c(2) c0(5) data have t: "take 12 c = take 12 data" by simp
      have sub: "le32 (drop j c) = le32 (drop j data)" if "j + 4 \<le> 12" for j
        using arg_cong [OF t, of "\<lambda>x. take 4 (drop j x)"] that by (simp add: le32_def drop_take min_absorb1)
      from False c0 len have "k + (12 - q) = 12 - ?p" by simp
      with False c c0 sub show thesis
        by (intro cases(3) [of c]) (simp_all add: eq)
    qed
  qed
  show thesis
  proof (cases "?p < 4")
    case False
    have t: "take 4 data = take 4 (head npc)"
      using False h by (simp add: data_def header_data_def min_def)
    then have "le32 data = 0" using h(3) False by (simp add: le32_def)
    then show thesis
      using False h len
      by (intro rest [of "head npc" ?p len 0 buf]) (simp_all add: data_def header_data_def header_parser_def)
  next
    case True
    let ?n = "min len (4 - ?p)"
    from True h assms(2) have "?n \<le> length buf" "?p + ?n \<le> length (head npc)" by auto
    then obtain c where c: "memcpy (head npc) ?p buf ?n = Some c" "length c = 12"
        "take (?p + ?n) c = take ?p (head npc) @ take ?n buf"
      using h(1) by (metis memcpy_extends)
    have sub: "size_sub 4 ?p = 4 - ?p" using True by (simp add: size_sub_le)
    show thesis
    proof (cases "?p + len < 4")
      case short: True
      then have "?n = len" by simp
      with c True short len show thesis
        by (intro cases(1) [of c])
           (simp_all add: header_parser_def header_rest_def sub data_def header_data_def)
    next
      case False
      then have n: "?n = 4 - ?p" by simp
      with True c(3) have t: "take 4 c = take 4 data"
        using h(1) False by (simp add: data_def header_data_def min_absorb1)
      then have le32: "le32 c = le32 data" by (simp add: le32_def)
      show thesis
      proof (cases "le32 data = 0")
        case zero: False
        with nd_zero_le32 [of c e] c(2) le32 have "nd_zero e c \<noteq> 0" by simp
        moreover have "le32toh e (nd_zero e c) = le32 data"
          using le32toh_view [of 0 c e] c(2) le32 by (simp add: nd_zero_def)
        ultimately show thesis
          using True c(1,2) n False len zero
          by (intro cases(2) [of c]) (simp_all add: header_parser_def sub)
      next
        case zero: True
        with nd_zero_le32 [of c e] c(2) le32 have z: "nd_zero e c = 0" by simp
        have "size_sub len (4 - ?p) = len - (4 - ?p)"
          using False assms(3) by (intro size_sub_le) simp_all
        then have "header_parser e npc buf len =
            header_rest e (npc\<lparr>head := c, head_pos := 4\<rparr>) (drop (4 - ?p) buf) (len - (4 - ?p)) (4 - ?p)"
          using True False c(1) n z by (simp add: header_parser_def sub Let_def)
        moreover have "take 4 data @ take (len - (4 - ?p)) (drop (4 - ?p) buf) = data"
        proof -
          have "drop 4 data = take (len - (4 - ?p)) (drop (4 - ?p) buf)"
            using True h(1) by (simp add: data_def header_data_def drop_take)
          then show ?thesis by (metis append_take_drop_id)
        qed
        ultimately show thesis
          using True False t c(2) zero len
          by (intro rest [of c 4 "len - (4 - ?p)" "4 - ?p" "drop (4 - ?p) buf"]) simp_all
      qed
    qed
  qed
qed

end
