(* ===== verification/Nodes_Entries.thy ===== *)
theory Nodes_Entries
  imports Nodes_Parsing
begin

text \<open>
  The loop of \<open>nd_parse_proc\<close> over the entries: one round, and the whole loop on any buffer, with the
  peers it adds to the list. From it: every call of the parser, on any buffer and with any outcome of
  \<open>malloc\<close>, stays inside its objects and keeps the parser's invariant.
\<close>

subsection \<open>A heap with more peers\<close>

definition contacts :: "endian \<Rightarrow> heap \<Rightarrow> ptr list \<Rightarrow> contact option list" where
  "contacts e h as = map (\<lambda>a. map_option (contact_of e) (h a)) as"

text \<open>\<open>h'\<close> has the peers \<open>ns\<close> more than \<open>h\<close>, which say \<open>cs\<close>; the others say what they said.\<close>

definition extends :: "endian \<Rightarrow> heap \<Rightarrow> heap \<Rightarrow> ptr list \<Rightarrow> contact list \<Rightarrow> bool" where
  "extends e h h' ns cs \<longleftrightarrow> dom h' = dom h \<union> set ns \<and> set ns \<inter> dom h = {} \<and> distinct ns \<and>
     (\<forall>a \<in> dom h. map_option (contact_of e) (h' a) = map_option (contact_of e) (h a)) \<and>
     contacts e h' ns = map Some cs"

lemma extends_refl: "extends e h h [] []"
  by (simp add: extends_def contacts_def)

lemma extends_trans:
  assumes a: "extends e h h1 ns cs" and b: "extends e h1 h2 ns' cs'"
  shows "extends e h h2 (ns @ ns') (cs @ cs')"
proof -
  have "contacts e h2 ns = contacts e h1 ns"
    using a b unfolding extends_def contacts_def by (intro map_cong refl) auto
  with a b show ?thesis
    unfolding extends_def by (auto simp: contacts_def)
qed

lemma extends_finite: "extends e h h' ns cs \<Longrightarrow> finite (dom h) \<Longrightarrow> finite (dom h')"
  by (simp add: extends_def)

lemma same_vals_contact: "same_vals h h' \<Longrightarrow> map_option (contact_of e) (h' a) = map_option (contact_of e) (h a)"
proof -
  assume "same_vals h h'"
  then have "map_option (contact_of e) (map_option kad_val (h' a)) = map_option (contact_of e) (map_option kad_val (h a))"
    by (simp add: same_vals_def)
  then show ?thesis by (simp add: option.map_comp o_def contact_of_val)
qed

lemma same_vals_dom: "same_vals h h' \<Longrightarrow> dom h' = dom h"
  unfolding same_vals_def dom_def by (metis None_eq_map_option_iff)

subsection \<open>Making and linking a peer\<close>

definition goal_of :: "u32 \<Rightarrow> nat" where
  "goal_of ver = (if ver = 0 then 25 else 34)"

lemma decode_entry_prefix: "goal_of ver \<le> length c \<Longrightarrow> decode_entry ver (take (goal_of ver) c) = decode_entry ver c"
  by (simp add: decode_entry_def goal_of_def le16_def drop_take min_def)

lemma decode_entry_2: "ver \<noteq> 0 \<Longrightarrow> decode_entry ver en = decode_entry 2 en"
  by (simp add: decode_entry_def)

definition make_peer :: "malloc \<Rightarrow> endian \<Rightarrow> heap \<Rightarrow> nd_parse_ctx \<Rightarrow> int + (ptr \<times> heap)" where
  "make_peer malloc e h npc =
     (if version npc \<noteq> 0 then mk_kad_peer malloc e h (cur_e npc) else mk_kad_peer_v0 malloc e h (cur_e npc))"

lemma make_peer_contact:
  assumes "length (cur_e npc) = 34" "malloc h = Inr a"
  obtains kp where "make_peer malloc e h npc = Inr (a, h(a \<mapsto> kp))" "p_next (kp_peer kp) = None"
    "contact_of e kp = decode_entry (version npc) (cur_e npc)"
proof (cases "version npc = 0")
  case True
  with that mk_kad_peer_v0_contact [of "cur_e npc" malloc h a e] assms show thesis
    by (auto simp: make_peer_def)
next
  case False
  with that mk_kad_peer_contact [of "cur_e npc" malloc h a e] assms decode_entry_2 [OF False] show thesis
    by (auto simp: make_peer_def)
qed

lemma make_peer_fail: "malloc h = Inl errno \<Longrightarrow> make_peer malloc e h npc = Inl errno"
  by (simp add: make_peer_def mk_kad_peer_def mk_kad_peer_v0_def)

lemma make_and_link:
  assumes "ctx_list h npc as" "length (cur_e npc) = 34" "malloc_ok malloc" "malloc h = Inr a"
  obtains h0 h' npc' where "make_peer malloc e h npc = Inr (a, h0)" "link_peer h0 npc a = Some (h', npc')"
    "ctx_list h' npc' (as @ [a])" "extends e h h' [a] [decode_entry (version npc) (cur_e npc)]"
    "npc' = npc\<lparr>peers := peers npc', tail := tail npc'\<rparr>"
proof -
  have fresh: "h a = None" using assms(3,4) by (auto simp: malloc_ok_def dest: spec [of _ h])
  have a: "a \<notin> set as"
    using assms(1) fresh peer_list_dom by (fastforce simp: ctx_list_def)
  obtain kp where kp: "make_peer malloc e h npc = Inr (a, h(a \<mapsto> kp))" "p_next (kp_peer kp) = None"
      "contact_of e kp = decode_entry (version npc) (cur_e npc)"
    using make_peer_contact assms(2,4) by metis
  let ?h = "h(a \<mapsto> kp)"
  have "peer_list ?h (peers npc) as"
    by (rule peer_list_frame [of h]) (use assms(1) a in \<open>auto simp: ctx_list_def\<close>)
  with assms(1) have l0: "ctx_list ?h npc as" by (simp add: ctx_list_def)
  have hk: "?h a = Some kp" by simp
  from link_peer_list [OF l0 a hk kp(2)] obtain h' npc' where l: "link_peer ?h npc a = Some (h', npc')" "ctx_list h' npc' (as @ [a])" "same_vals ?h h'"
      "npc' = npc\<lparr>peers := peers npc', tail := tail npc'\<rparr>"
    by metis
  have "extends e h h' [a] [decode_entry (version npc) (cur_e npc)]"
    using same_vals_dom [OF l(3)] same_vals_contact [OF l(3), of e] fresh kp(3)
    by (auto simp: extends_def contacts_def)
  with that kp(1) l show thesis by blast
qed

subsection \<open>One round of the loop\<close>

definition entry_data :: "nd_parse_ctx \<Rightarrow> nat \<Rightarrow> bytes \<Rightarrow> nat \<Rightarrow> bytes" where
  "entry_data npc pos buf len = take pos (cur_e npc) @ take len buf"

definition round_ok :: "heap \<Rightarrow> nd_parse_ctx \<Rightarrow> ptr list \<Rightarrow> bytes \<Rightarrow> nat \<Rightarrow> nat \<Rightarrow> bool" where
  "round_ok h npc as buf len pos \<longleftrightarrow> ctx_list h npc as \<and> length (cur_e npc) = 34 \<and>
     pos < goal_of (version npc) \<and> len \<le> length buf \<and> len < 2 ^ 64"

lemma entry_data_length: "round_ok h npc as buf len pos \<Longrightarrow> length (entry_data npc pos buf len) = pos + len"
  by (auto simp: round_ok_def entry_data_def goal_of_def split: if_splits)

lemma nd_entries_end: "\<not> nr < tot \<Longrightarrow> nd_entries malloc e g tot h npc buf len consumed nr pos = Some (to_int consumed, h, npc)"
  by (subst nd_entries.simps) simp

lemma nd_entries_round:
  assumes ok: "round_ok h npc as buf len pos" and malloc: "malloc_ok malloc" and nr: "nr < tot"
  defines "g \<equiv> goal_of (version npc)" and "data \<equiv> entry_data npc pos buf len"
  obtains (part) c where "length data < g" "length c = 34" "take (pos + len) c = data"
      "nd_entries malloc e g tot h npc buf len consumed nr pos =
         Some (to_int (consumed + len), h, npc\<lparr>cur_e := c, cur_e_pos := pos + len, nr_consumed := nr\<rparr>)"
    | (fail) c errno where "g \<le> length data" "malloc h = Inl errno" "0 < errno" "length c = 34"
      "nd_entries malloc e g tot h npc buf len consumed nr pos =
         Some (to_int consumed, h, npc\<lparr>cur_e := c, error := - errno, nr_consumed := nr, cur_e_pos := 0\<rparr>)"
    | (filled) a h1 npc1 c where "g \<le> length data" "length c = 34"
      "extends e h h1 [a] [decode_entry (version npc) (take g data)]"
      "npc1 = npc\<lparr>cur_e := c, peers := peers npc1, tail := tail npc1\<rparr>"
      "round_ok h1 npc1 (as @ [a]) (drop (g - pos) buf) (len - (g - pos)) 0"
      "entry_data npc1 0 (drop (g - pos) buf) (len - (g - pos)) = drop g data"
      "nd_entries malloc e g tot h npc buf len consumed nr pos =
         nd_entries malloc e g tot h1 npc1 (drop (g - pos) buf) (len - (g - pos)) (consumed + (g - pos)) (nr + 1) 0"
      "malloc h = Inr a"
proof -
  note data_len = entry_data_length [OF ok, folded data_def]
  from ok have r: "ctx_list h npc as" "length (cur_e npc) = 34" "pos < g" "len \<le> length buf" "len < 2 ^ 64"
    by (simp_all add: round_ok_def g_def)
  have g: "g \<le> 34" by (simp add: g_def goal_of_def)
  let ?n = "min (g - pos) len"
  have sub: "size_sub g pos = g - pos" "size_sub len ?n = len - ?n"
    using r g by (simp_all add: size_sub_le)
  have "?n \<le> length buf" "pos + ?n \<le> length (cur_e npc)" using r g by auto
  then obtain c where c: "memcpy (cur_e npc) pos buf ?n = Some c" "length c = 34"
      "take (pos + ?n) c = take pos (cur_e npc) @ take ?n buf"
    using r(2) by (metis memcpy_extends)
  show thesis
  proof (cases "pos + len < g")
    case True
    then have n: "?n = len" by simp
    with True nr c sub data_len show thesis
      by (intro part [of c]) (simp_all add: nd_entries.simps [of malloc e g tot h npc] data_def entry_data_def Let_def)
  next
    case False
    then have n: "?n = g - pos" by simp
    let ?npc = "npc\<lparr>cur_e := c\<rparr>"
    have pos: "pos + (g - pos) = g" using r(3) by simp
    have t: "take g c = take g data"
    proof -
      have "min (length (cur_e npc)) pos = pos" using r g by simp
      with c(3) n pos show ?thesis by (simp add: data_def entry_data_def)
    qed
    have step: "nd_entries malloc e g tot h npc buf len consumed nr pos =
        (case make_peer malloc e h ?npc of
           Inl errno \<Rightarrow> Some (to_int consumed, h, ?npc\<lparr>error := - errno, nr_consumed := nr, cur_e_pos := 0\<rparr>)
         | Inr (p, h) \<Rightarrow> Option.bind (link_peer h ?npc p) (\<lambda>(h, npc).
             nd_entries malloc e g tot h npc (drop (g - pos) buf) (len - (g - pos)) (consumed + (g - pos)) (nr + 1) 0))"
      using c(1) n sub pos nr
      by (subst nd_entries.simps) (simp add: make_peer_def Let_def cong: sum.case_cong)
    show thesis
    proof (cases "malloc h")
      case (Inl errno)
      with malloc have "0 < errno" by (auto simp: malloc_ok_def dest: spec [of _ h])
      with Inl False data_len c(2) step make_peer_fail [of malloc h errno] show thesis
        by (intro fail [of errno c]) simp_all
    next
      case (Inr a)
      have "ctx_list h ?npc as" using r(1) by (simp add: ctx_list_def)
      then obtain h0 h1 npc1 where m: "make_peer malloc e h ?npc = Inr (a, h0)" "link_peer h0 ?npc a = Some (h1, npc1)"
          "ctx_list h1 npc1 (as @ [a])" "extends e h h1 [a] [decode_entry (version npc) c]"
          "npc1 = ?npc\<lparr>peers := peers npc1, tail := tail npc1\<rparr>"
        using make_and_link [of h ?npc as malloc a e] c(2) malloc Inr by auto
      have "decode_entry (version npc) c = decode_entry (version npc) (take g data)"
        using decode_entry_prefix [of "version npc" c] c(2) g t by (simp add: g_def)
      moreover have v: "version npc1 = version npc" "cur_e npc1 = c"
        by (subst m(5), simp)+
      moreover have "round_ok h1 npc1 (as @ [a]) (drop (g - pos) buf) (len - (g - pos)) 0"
        using m(3) v c(2) r False by (auto simp: round_ok_def g_def)
      moreover have "entry_data npc1 0 (drop (g - pos) buf) (len - (g - pos)) = drop g data"
      proof -
        have "min (length (cur_e npc)) pos = pos" using r g by simp
        then show ?thesis using r by (simp add: entry_data_def data_def drop_take)
      qed
      ultimately show thesis
        using False data_len c(2) m step Inr
        by (intro filled [of c h1 a npc1]) simp_all
    qed
  qed
qed

subsection \<open>The whole loop\<close>

fun entries_of :: "nat \<Rightarrow> nat \<Rightarrow> bytes \<Rightarrow> bytes list" where
  "entries_of g 0 bs = []"
| "entries_of g (Suc n) bs = take g bs # entries_of g n (drop g bs)"

lemma length_entries_of [simp]: "length (entries_of g n bs) = n"
  by (induction n arbitrary: bs) auto

text \<open>How the loop may end, \<open>k\<close> peers later: at the last entry, at the end of the buffer with a part
  of an entry kept for the next call, or because \<open>malloc\<close> failed.\<close>

definition ends_done :: "nd_parse_ctx \<Rightarrow> bytes \<Rightarrow> nat \<Rightarrow> nat \<Rightarrow> nat \<Rightarrow> nat \<Rightarrow> nat \<Rightarrow> int \<Rightarrow> nd_parse_ctx \<Rightarrow> bool" where
  "ends_done npc data consumed left pos g k r npc' \<longleftrightarrow>
     k = left \<and> r = to_int (consumed + (k * g - pos)) \<and> (k = 0 \<or> k * g \<le> length data) \<and>
     npc' = npc\<lparr>cur_e := cur_e npc', peers := peers npc', tail := tail npc'\<rparr>"

definition ends_part :: "nd_parse_ctx \<Rightarrow> bytes \<Rightarrow> nat \<Rightarrow> nat \<Rightarrow> nat \<Rightarrow> nat \<Rightarrow> nat \<Rightarrow> nat \<Rightarrow> int \<Rightarrow> nd_parse_ctx \<Rightarrow> bool" where
  "ends_part npc data len consumed left g nr k r npc' \<longleftrightarrow>
     k < left \<and> r = to_int (consumed + len) \<and> k * g \<le> length data \<and> length data < (k + 1) * g \<and>
     npc' = npc\<lparr>cur_e := cur_e npc', peers := peers npc', tail := tail npc',
       cur_e_pos := length data - k * g, nr_consumed := nr + k\<rparr> \<and>
     take (length data - k * g) (cur_e npc') = drop (k * g) data"

definition ends_fail :: "malloc \<Rightarrow> heap \<Rightarrow> nd_parse_ctx \<Rightarrow> bytes \<Rightarrow> nat \<Rightarrow> nat \<Rightarrow> nat \<Rightarrow> nat \<Rightarrow> nd_parse_ctx \<Rightarrow> bool" where
  "ends_fail malloc h' npc data left g nr k npc' \<longleftrightarrow>
     k < left \<and> (k + 1) * g \<le> length data \<and>
     (\<exists>errno > 0. malloc h' = Inl errno \<and>
        npc' = npc\<lparr>cur_e := cur_e npc', peers := peers npc', tail := tail npc',
          error := - errno, nr_consumed := nr + k, cur_e_pos := 0\<rparr>)"

lemma nd_entries_all:
  assumes "malloc_ok malloc"
  shows "round_ok h npc as buf len pos \<Longrightarrow> tot - nr = left \<Longrightarrow>
    \<exists>r h' npc' ns.
      nd_entries malloc e (goal_of (version npc)) tot h npc buf len consumed nr pos = Some (r, h', npc') \<and>
      ctx_list h' npc' (as @ ns) \<and> length (cur_e npc') = 34 \<and>
      extends e h h' ns (map (decode_entry (version npc))
        (entries_of (goal_of (version npc)) (length ns) (entry_data npc pos buf len))) \<and>
      (ends_done npc (entry_data npc pos buf len) consumed left pos (goal_of (version npc)) (length ns) r npc' \<or>
       ends_part npc (entry_data npc pos buf len) len consumed left (goal_of (version npc)) nr (length ns) r npc' \<or>
       ends_fail malloc h' npc (entry_data npc pos buf len) left (goal_of (version npc)) nr (length ns) npc')"
proof (induction left arbitrary: h npc as buf len consumed nr pos)
  case 0
  then have "\<not> nr < tot" by simp
  from nd_entries_end [OF this] 0 show ?case
    by (intro exI [of _ "to_int consumed"] exI [of _ h] exI [of _ npc] exI [of _ "[]"])
       (simp add: ends_done_def extends_refl round_ok_def)
next
  case (Suc left)
  let ?g = "goal_of (version npc)" and ?data = "entry_data npc pos buf len"
  from Suc.prems(2) have nr: "nr < tot" by simp
  have pos: "pos < ?g" using Suc.prems(1) by (simp add: round_ok_def)
  note len = entry_data_length [OF Suc.prems(1)]
  from Suc.prems(1) assms nr show ?case
  proof (cases rule: nd_entries_round [where consumed = consumed and e = e])
    case (part c)
    then show ?thesis
      using Suc.prems(1) len
      by (intro exI [of _ "to_int (consumed + len)"] exI [of _ h]
          exI [of _ "npc\<lparr>cur_e := c, cur_e_pos := pos + len, nr_consumed := nr\<rparr>"] exI [of _ "[]"])
         (simp add: ends_part_def extends_refl round_ok_def ctx_list_def)
  next
    case (fail c errno)
    then show ?thesis
      using Suc.prems(1)
      by (intro exI [of _ "to_int consumed"] exI [of _ h]
          exI [of _ "npc\<lparr>cur_e := c, error := - errno, nr_consumed := nr, cur_e_pos := 0\<rparr>"] exI [of _ "[]"])
         (auto simp: ends_fail_def extends_refl round_ok_def ctx_list_def)
  next
    case (filled a h1 npc1 c)
    have v: "version npc1 = version npc" by (subst filled(4)) simp
    obtain p t where n1: "npc1 = npc\<lparr>cur_e := c, peers := p, tail := t\<rparr>"
      using filled(4) by blast
    have up: "npc1\<lparr>cur_e := x, peers := y, tail := z\<rparr> = npc\<lparr>cur_e := x, peers := y, tail := z\<rparr>" for x y z
      unfolding n1 by simp
    from Suc.prems(2) have left: "tot - (nr + 1) = left" by simp
    from Suc.IH [OF filled(5) left, unfolded v filled(6)] obtain r h' npc' ns where
      i: "nd_entries malloc e ?g tot h1 npc1 (drop (?g - pos) buf) (len - (?g - pos)) (consumed + (?g - pos)) (nr + 1) 0 = Some (r, h', npc')"
         "ctx_list h' npc' ((as @ [a]) @ ns)" "length (cur_e npc') = 34"
         "extends e h1 h' ns (map (decode_entry (version npc)) (entries_of ?g (length ns) (drop ?g ?data)))"
      and ends: "ends_done npc1 (drop ?g ?data) (consumed + (?g - pos)) left 0 ?g (length ns) r npc' \<or>
         ends_part npc1 (drop ?g ?data) (len - (?g - pos)) (consumed + (?g - pos)) left ?g (nr + 1) (length ns) r npc' \<or>
         ends_fail malloc h' npc1 (drop ?g ?data) left ?g (nr + 1) (length ns) npc'"
      by blast
    have "extends e h h' ([a] @ ns) ([decode_entry (version npc) (take ?g ?data)] @
        map (decode_entry (version npc)) (entries_of ?g (length ns) (drop ?g ?data)))"
      using filled(3) i(4) by (rule extends_trans)
    then have ext: "extends e h h' (a # ns) (map (decode_entry (version npc)) (entries_of ?g (length (a # ns)) ?data))"
      by simp
    have "ends_done npc ?data consumed (Suc left) pos ?g (length (a # ns)) r npc' \<or>
       ends_part npc ?data len consumed (Suc left) ?g nr (length (a # ns)) r npc' \<or>
       ends_fail malloc h' npc ?data (Suc left) ?g nr (length (a # ns)) npc'"
      using ends
    proof (elim disjE)
      assume d: "ends_done npc1 (drop ?g ?data) (consumed + (?g - pos)) left 0 ?g (length ns) r npc'"
      with pos filled(1) show ?thesis by (auto simp: ends_done_def up add.assoc)
    next
      assume d: "ends_part npc1 (drop ?g ?data) (len - (?g - pos)) (consumed + (?g - pos)) left ?g (nr + 1) (length ns) r npc'"
      with pos filled(1) len show ?thesis by (auto simp: ends_part_def up add.commute)
    next
      assume d: "ends_fail malloc h' npc1 (drop ?g ?data) left ?g (nr + 1) (length ns) npc'"
      with pos filled(1) len show ?thesis by (auto simp: ends_fail_def up)
    qed
    with filled(7) i ext show ?thesis
      by (intro exI [of _ r] exI [of _ h'] exI [of _ npc'] exI [of _ "a # ns"]) simp
  qed
qed

end
