(* ===== verification/Chunks.thy ===== *)
theory Chunks
  imports Prelude
begin

text \<open>
  Parsers that are fed a file piece by piece, as an interface: a step takes a state and a chunk, and
  a relation says what the state knows of the bytes seen so far. The locale proves that the cuts
  between the chunks do not matter.
\<close>

text \<open>The results of the steps over a list of chunks, and the last state.\<close>

fun feed :: "('s \<Rightarrow> bytes \<Rightarrow> (int \<times> 's) option) \<Rightarrow> 's \<Rightarrow> bytes list \<Rightarrow> (int list \<times> 's) option" where
  "feed step s [] = Some ([], s)"
| "feed step s (c # cs) = do {
     (r, s) \<leftarrow> step s c;
     (rs, s) \<leftarrow> feed step s cs;
     Some (r # rs, s)
   }"

definition chunk_ok :: "bytes \<Rightarrow> bool" where
  "chunk_ok c \<longleftrightarrow> c \<noteq> [] \<and> length c \<le> INT_MAX"

locale incremental =
  fixes step :: "'s \<Rightarrow> bytes \<Rightarrow> (int \<times> 's) option"
    and rel :: "'s \<Rightarrow> bytes \<Rightarrow> bool"
    and whole :: bytes
  assumes step_rel: "rel s d \<Longrightarrow> whole = d @ c @ r \<Longrightarrow> chunk_ok c \<Longrightarrow>
    \<exists>s'. step s c = Some (int (length c), s') \<and> rel s' (d @ c)"
begin

lemma feed_rel:
  "rel s d \<Longrightarrow> whole = d @ concat cs @ r \<Longrightarrow> list_all chunk_ok cs \<Longrightarrow>
     \<exists>s'. feed step s cs = Some (map (\<lambda>c. int (length c)) cs, s') \<and> rel s' (d @ concat cs)"
proof (induction cs arbitrary: s d)
  case (Cons c cs)
  then obtain s' where s': "step s c = Some (int (length c), s')" "rel s' (d @ c)"
    using step_rel [of s d c "concat cs @ r"] by auto
  with Cons.IH [OF s'(2)] Cons.prems show ?case by auto
qed simp

text \<open>Two ways of cutting the same bytes lead to states that know the same.\<close>

lemma feed_cuts:
  assumes "rel s []" "whole = concat cs" "concat cs = concat cs'" "list_all chunk_ok cs" "list_all chunk_ok cs'"
  shows "\<exists>s1 s2. feed step s cs = Some (map (\<lambda>c. int (length c)) cs, s1) \<and>
    feed step s cs' = Some (map (\<lambda>c. int (length c)) cs', s2) \<and> rel s1 whole \<and> rel s2 whole"
  using feed_rel [of s "[]" cs "[]"] feed_rel [of s "[]" cs' "[]"] assms by auto

end

end
