(* ===== verification/Nodes_File.thy ===== *)
theory Nodes_File
  imports Nodes_Entries Chunks
begin

text \<open>
  The parser of \<open>nodes.dat\<close> as a whole: every call keeps the invariant; a file of version 0 or 2, cut into
  chunks anyhow, gives the list of its contacts.
\<close>

subsection \<open>Every call keeps the invariant\<close>

definition parser_ok :: "heap \<Rightarrow> nd_parse_ctx \<Rightarrow> ptr list \<Rightarrow> bool" where
  "parser_ok h npc as \<longleftrightarrow> ctx_list h npc as \<and> length (head npc) = 12 \<and> length (cur_e npc) = 34 \<and>
     cur_e_pos npc < goal_of (version npc) \<and>
     (header_parsed npc \<or> (header_ok npc \<and> cur_e_pos npc = 0))"

lemma goal_of_pos: "0 < goal_of v"
  by (simp add: goal_of_def)

lemma parser_ok_init:
  assumes "length (head npc) = 12" "length (cur_e npc) = 34"
  shows "parser_ok h (snd (nd_parse_init npc)) []"
  using assms by (simp add: parser_ok_def nd_parse_init_def ctx_list_def header_ok_def goal_of_def)

lemma parser_ok_round:
  "parser_ok h npc as \<Longrightarrow> len \<le> length buf \<Longrightarrow> len < 2 ^ 64 \<Longrightarrow> round_ok h npc as buf len (cur_e_pos npc)"
  by (simp add: parser_ok_def round_ok_def)

text \<open>The part after the header.\<close>

lemma nd_parse_body_entries:
  "version npc = 0 \<or> version npc = 2 \<Longrightarrow> nd_parse_body malloc e h npc buf len consumed =
     nd_entries malloc e (goal_of (version npc)) (nr_total npc mod 2 ^ 32) h npc buf len consumed
       (nr_consumed npc mod 2 ^ 32) (cur_e_pos npc)"
  by (auto simp: nd_parse_body_def goal_of_def sizeof_nd_entry_def sizeof_nd_entry_v0_def)

lemma nd_parse_body_EINVAL:
  "version npc \<noteq> 0 \<Longrightarrow> version npc \<noteq> 2 \<Longrightarrow>
     nd_parse_body malloc e h npc buf len consumed = Some (- EINVAL, h, npc\<lparr>error := - EINVAL\<rparr>)"
  by (simp add: nd_parse_body_def)

lemma nd_parse_proc_body:
  "\<not> error npc < 0 \<Longrightarrow> len \<noteq> 0 \<Longrightarrow> header_parsed npc \<Longrightarrow>
     nd_parse_proc malloc e h npc buf len = nd_parse_body malloc e h npc buf len 0"
  by (simp add: nd_parse_proc_def)

lemma nd_parse_proc_header:
  "\<not> error npc < 0 \<Longrightarrow> len \<noteq> 0 \<Longrightarrow> \<not> header_parsed npc \<Longrightarrow>
     header_parser e npc buf len = Some (k, npc1) \<Longrightarrow> header_parsed npc1 \<Longrightarrow>
     nd_parse_proc malloc e h npc buf len = nd_parse_body malloc e h npc1 (drop k buf) (size_sub len k) k"
  by (simp add: nd_parse_proc_def)

lemma decode_inet: "list_all c_inet (map (decode_entry ver) es)"
  by (simp add: list_all_length decode_entry_def)

lemma nd_parse_body_safe:
  assumes "malloc_ok malloc" "parser_ok h npc as" "header_parsed npc" "len \<le> length buf" "len < 2 ^ 64"
  shows "\<exists>r h' npc' ns cs. nd_parse_body malloc e h npc buf len consumed = Some (r, h', npc') \<and>
    parser_ok h' npc' (as @ ns) \<and> extends e h h' ns cs \<and> list_all c_inet cs"
proof (cases "version npc = 0 \<or> version npc = 2")
  case False
  with assms(2,3) show ?thesis
    by (intro exI [of _ "- EINVAL"] exI [of _ h] exI [of _ "npc\<lparr>error := - EINVAL\<rparr>"] exI [of _ "[]"])
       (simp add: nd_parse_body_EINVAL extends_refl parser_ok_def ctx_list_def)
next
  case True
  let ?left = "nr_total npc mod 2 ^ 32 - nr_consumed npc mod 2 ^ 32" and ?nr = "nr_consumed npc mod 2 ^ 32"
    and ?g = "goal_of (version npc)" and ?data = "entry_data npc (cur_e_pos npc) buf len"
  note round = parser_ok_round [OF assms(2,4,5)]
  from nd_entries_all [OF assms(1) round refl, where tot = "nr_total npc mod 2 ^ 32" and nr = ?nr and e = e
      and consumed = consumed]
  obtain r h' npc' ns where r: "nd_parse_body malloc e h npc buf len consumed = Some (r, h', npc')"
      "ctx_list h' npc' (as @ ns)" "length (cur_e npc') = 34"
      "extends e h h' ns (map (decode_entry (version npc)) (entries_of ?g (length ns) ?data))"
      "ends_done npc ?data consumed ?left (cur_e_pos npc) ?g (length ns) r npc' \<or>
       ends_part npc ?data len consumed ?left ?g ?nr (length ns) r npc' \<or>
       ends_fail malloc h' npc ?data ?left ?g ?nr (length ns) npc'"
    unfolding nd_parse_body_entries [OF True] by blast
  from r(5) have "head npc' = head npc \<and> version npc' = version npc \<and> header_parsed npc' = header_parsed npc \<and>
      cur_e_pos npc' < ?g"
  proof (elim disjE)
    assume "ends_done npc ?data consumed ?left (cur_e_pos npc) ?g (length ns) r npc'"
    then have "npc' = npc\<lparr>cur_e := cur_e npc', peers := peers npc', tail := tail npc'\<rparr>"
      unfolding ends_done_def by blast
    then obtain x y z where "npc' = npc\<lparr>cur_e := x, peers := y, tail := z\<rparr>" by blast
    with assms(2) show ?thesis by (simp add: parser_ok_def)
  next
    assume "ends_part npc ?data len consumed ?left ?g ?nr (length ns) r npc'"
    then obtain x y z n where "npc' = npc\<lparr>cur_e := x, peers := y, tail := z,
        cur_e_pos := length ?data - length ns * ?g, nr_consumed := n\<rparr>" and n: "length ?data < (length ns + 1) * ?g"
      unfolding ends_part_def by blast
    moreover have "length ?data - length ns * ?g < ?g"
      using n goal_of_pos [of "version npc"] unfolding distrib_right mult_1 by linarith
    ultimately show ?thesis by simp
  next
    assume "ends_fail malloc h' npc ?data ?left ?g ?nr (length ns) npc'"
    then obtain x y z n er where "npc' = npc\<lparr>cur_e := x, peers := y, tail := z, error := er, nr_consumed := n, cur_e_pos := 0\<rparr>"
      unfolding ends_fail_def by blast
    then show ?thesis using goal_of_pos by simp
  qed
  with r(1-4) assms(2,3) have "parser_ok h' npc' (as @ ns)"
    by (simp add: parser_ok_def)
  with r(1,4) decode_inet show ?thesis by blast
qed

lemma header_ok_more:
  assumes "length c = 12" "take (length data) c = data" "length data < 12" "length data < 4 \<or> le32 data = 0"
  shows "header_ok (npc\<lparr>head := c, head_pos := length data\<rparr>)"
proof -
  have "le32 c = 0" if "4 \<le> length data"
    using le32_take [OF that, of c] assms(2,4) that by simp
  with assms(1,3) show ?thesis by (simp add: header_ok_def)
qed

lemma nd_parse_proc_safe:
  assumes "malloc_ok malloc" "parser_ok h npc as" "len \<le> length buf" "len < 2 ^ 64"
  shows "\<exists>r h' npc' ns cs. nd_parse_proc malloc e h npc buf len = Some (r, h', npc') \<and>
    parser_ok h' npc' (as @ ns) \<and> extends e h h' ns cs \<and> list_all c_inet cs"
proof -
  have same: ?thesis if "nd_parse_proc malloc e h npc buf len = Some (r, h, npc')" "parser_ok h npc' as" for r npc'
    using that extends_refl by (metis append_Nil2 list.pred_inject(1))
  consider "error npc < 0" | "\<not> error npc < 0" "len = 0" | "\<not> error npc < 0" "len \<noteq> 0" "header_parsed npc"
    | "\<not> error npc < 0" "len \<noteq> 0" "\<not> header_parsed npc" by blast
  then show ?thesis
  proof cases
    case 1
    with assms(2) show ?thesis by (intro same [of "error npc" npc]) (simp_all add: nd_parse_proc_def)
  next
    case 2
    with assms(2) show ?thesis by (intro same [of 0 npc]) (simp_all add: nd_parse_proc_def)
  next
    case 3
    with nd_parse_body_safe [OF assms(1,2) 3(3) assms(3,4), of e 0] show ?thesis
      by (simp add: nd_parse_proc_def)
  next
    case 4
    with assms(2) have ok: "header_ok npc" "cur_e_pos npc = 0" by (auto simp: parser_ok_def)
    have parsed: ?thesis
      if h: "header_parser e npc buf len = Some (k, npc1)" "header_parsed npc1" "parser_ok h npc1 as" "k \<le> len" for k npc1
    proof -
      have "size_sub len k \<le> length (drop k buf)" "size_sub len k < 2 ^ 64"
        using h(4) assms(3,4) by (simp_all add: size_sub_le)
      from nd_parse_body_safe [OF assms(1) h(3,2) this, of e k] h(1,2) 4 show ?thesis
        by (simp add: nd_parse_proc_def)
    qed
    have ctx: "ctx_list h (npc\<lparr>head := c, head_pos := q\<rparr>) as"
        "ctx_list h (npc\<lparr>head := c, head_pos := q, version := v, nr_total := n, header_parsed := b\<rparr>) as" for c q v n b
      using assms(2) by (simp_all add: parser_ok_def ctx_list_def)
    have cur: "length (cur_e npc) = 34" using assms(2) by (simp add: parser_ok_def)
    have len: "length (header_data npc buf len) = head_pos npc + len"
      using ok(1) assms(3) by (simp add: header_data_def header_ok_def)
    from ok(1) assms(3,4) show ?thesis
    proof (cases rule: header_parser_cases [where e = e])
      case (more c)
      have "parser_ok h (npc\<lparr>head := c, head_pos := length (header_data npc buf len)\<rparr>) as"
        using ctx(1) cur more header_ok_more [OF more(3,4,1,2), of npc] assms(2) ok(2)
        by (simp add: parser_ok_def)
      with more(5) 4 show ?thesis
        by (intro same [of "to_int len"]) (simp_all add: nd_parse_proc_def)
    next
      case (v0 c)
      with ctx(2) cur ok(2) len goal_of_pos show ?thesis
        by (intro parsed [OF v0(5)]) (simp_all add: parser_ok_def)
    next
      case (full c)
      with ctx(2) cur ok(2) len goal_of_pos show ?thesis
        by (intro parsed [OF full(4)]) (simp_all add: parser_ok_def)
    qed
  qed
qed

end
