(* ===== verification/Nodes_Whole.thy ===== *)
theory Nodes_Whole
  imports Nodes_File
begin

text \<open>
  A whole \<open>nodes.dat\<close> file, fed to the parser in chunks: the state after any prefix of the file, and
  the list of contacts at its end. The parser interprets the interface of Chunks.
\<close>

subsection \<open>Files\<close>

definition file_header :: "u32 \<Rightarrow> nat \<Rightarrow> bytes" where
  "file_header ver n =
     (if ver = 0 then bytes_of_u32 Little (of_nat n)
      else replicate 4 0 @ bytes_of_u32 Little ver @ bytes_of_u32 Little (of_nat n))"

definition nd_file :: "u32 \<Rightarrow> bytes list \<Rightarrow> bytes" where
  "nd_file ver es = file_header ver (length es) @ concat es"

definition file_ok :: "u32 \<Rightarrow> bytes list \<Rightarrow> bool" where
  "file_ok ver es \<longleftrightarrow> (ver = 0 \<and> es \<noteq> [] \<or> ver = 2) \<and> length es < 2 ^ 32 \<and>
     list_all (\<lambda>en. length en = goal_of ver) es"

definition header_len :: "u32 \<Rightarrow> nat" where
  "header_len ver = (if ver = 0 then 4 else 12)"

text \<open>An allocator that always finds an address while the heap is finite.\<close>

definition malloc_total :: "malloc \<Rightarrow> bool" where
  "malloc_total malloc \<longleftrightarrow> malloc_ok malloc \<and> (\<forall>h. finite (dom h) \<longrightarrow> (\<exists>a. malloc h = Inr a))"

definition bump_malloc :: malloc where
  "bump_malloc h = (if finite (dom h) then Inr (Suc (Max (insert 0 (dom h)))) else Inl 12)"

lemma bump_malloc_total: "malloc_total bump_malloc"
proof -
  have "h (Suc (Max (insert 0 (dom h)))) = None" if "finite (dom h)" for h :: heap
  proof (rule ccontr)
    assume "h (Suc (Max (insert 0 (dom h)))) \<noteq> None"
    then have "Suc (Max (insert 0 (dom h))) \<in> insert 0 (dom h)" by auto
    with that have "Suc (Max (insert 0 (dom h))) \<le> Max (insert 0 (dom h))" by (intro Max_ge) simp_all
    then show False by simp
  qed
  then show ?thesis by (simp add: malloc_total_def malloc_ok_def bump_malloc_def)
qed

lemma u32_bytes: "u32_of Little (bytes_of_u32 Little x) = x"
proof -
  have "unat x < 2 ^ LENGTH(32)" by (rule unsigned_less)
  then have x32: "unat x < 4294967296" by simp
  then have "unat x < 256 * (256 * (256 * 256))" by simp
  then have x: "unat x div 256 div 256 div 256 < 256"
    by (simp add: div_mult2_eq [symmetric] div_less_iff_less_mult)
  have m: "unat x mod 4294967296 = unat x"
    using x32 by simp
  have b: "unat (ucast (drop_bit k x) :: byte) = unat x div 2 ^ k mod 256" for k
    by (simp add: unsigned_ucast_eq unsigned_drop_bit_eq take_bit_eq_mod drop_bit_eq_div [where 'a = nat] m)
  have "bytes_of_u32 Little x =
      [ucast (drop_bit 0 x), ucast (drop_bit 8 x), ucast (drop_bit 16 x), ucast (drop_bit 24 x)]"
    by (simp add: bytes_of_u32_def)
  then have "unat (u32_of Little (bytes_of_u32 Little x)) =
      unat x mod 256 + unat x div 256 mod 256 * 256 + unat x div 256 div 256 mod 256 * 65536 +
      unat x div 256 div 256 div 256 * 16777216"
    using x by (simp only: unat_u32_Little b) (simp add: div_mult2_eq [symmetric])
  also have "\<dots> = unat x"
    using div_mult_mod_eq [of "unat x" 256] div_mult_mod_eq [of "unat x div 256" 256]
      div_mult_mod_eq [of "unat x div 256 div 256" 256] by linarith
  finally show ?thesis by (simp only: word_unat_eq_iff)
qed

lemma length_bytes_of_u32 [simp]: "length (bytes_of_u32 e x) = 4"
  by (cases e) (simp_all add: bytes_of_u32_def Let_def)

lemma le32_bytes: "le32 (bytes_of_u32 Little x @ r) = x"
  by (simp add: le32_def u32_bytes)

lemma length_file_header: "length (file_header ver n) = header_len ver"
  by (simp add: file_header_def header_len_def)

lemma unat_of_nat_u32: "n < 2 ^ 32 \<Longrightarrow> unat (of_nat n :: u32) = n"
  by (simp add: unat_of_nat)

text \<open>What \<open>header_parser\<close> finds in a header.\<close>

lemma header_fields:
  assumes "ver = 0 \<and> 0 < n \<or> ver = 2" "n < 2 ^ 32"
  shows "ver = 0 \<Longrightarrow> le32 (file_header ver n @ r) \<noteq> 0 \<and> unat (le32 (file_header ver n @ r)) = n"
    and "ver = 2 \<Longrightarrow> le32 (file_header ver n @ r) = 0"
    and "ver = 2 \<Longrightarrow> le32 (drop 4 (file_header ver n @ r)) = 2"
    and "ver = 2 \<Longrightarrow> unat (le32 (drop 8 (file_header ver n @ r))) = n"
proof -
  assume v: "ver = 0"
  have "le32 (file_header ver n @ r) = of_nat n" by (simp add: file_header_def v le32_bytes)
  with v assms show "le32 (file_header ver n @ r) \<noteq> 0 \<and> unat (le32 (file_header ver n @ r)) = n"
    using unat_of_nat_u32 [OF assms(2)] by (auto simp: unat_eq_0 [symmetric])
next
  assume v: "ver = 2"
  have z: "replicate 4 0 = bytes_of_u32 Little 0" by (simp add: bytes_of_u32_def eval_nat_numeral)
  have f: "file_header ver n = bytes_of_u32 Little 0 @ bytes_of_u32 Little 2 @ bytes_of_u32 Little (of_nat n)"
    by (simp add: file_header_def v z)
  show "le32 (file_header ver n @ r) = 0" "le32 (drop 4 (file_header ver n @ r)) = 2"
    "unat (le32 (drop 8 (file_header ver n @ r))) = n"
    unfolding f by (simp_all add: le32_bytes unat_of_nat_u32 [OF assms(2)])
qed

lemma entries_of_concat:
  "list_all (\<lambda>en. length en = g) es \<Longrightarrow> concat es = bs @ r \<Longrightarrow> n \<le> length es \<Longrightarrow> n * g \<le> length bs \<Longrightarrow>
     entries_of g n bs = take n es"
proof (induction n arbitrary: es bs)
  case (Suc n)
  then obtain en es' where es: "es = en # es'" by (cases es) auto
  with Suc.prems have en: "length en = g" "g \<le> length bs" by auto
  then have bs: "bs = en @ drop g bs"
    using Suc.prems(2) es by (metis append_eq_append_conv_if append_take_drop_id concat.simps(2) take_all_iff order_refl)
  with Suc.prems es have "concat es' = drop g bs @ r"
    by (metis append.assoc concat.simps(2) same_append_eq)
  with Suc es en have "entries_of g n (drop g bs) = take n es'"
    by (intro Suc.IH) auto
  moreover have "take g bs = en" using bs en(1) by (metis append_eq_conv_conj)
  ultimately show ?case using es by simp
qed simp

lemma entries_of_prefix: "n * g \<le> length bs \<Longrightarrow> entries_of g n (bs @ r) = entries_of g n bs"
  by (induction n arbitrary: bs) auto

lemma length_concat_entries: "list_all (\<lambda>en. length en = g) es \<Longrightarrow> length (concat es) = length es * g"
  by (induction es) auto

lemma drop_concat_entries: "list_all (\<lambda>en. length en = g) es \<Longrightarrow> drop (k * g) (concat es) = concat (drop k es)"
proof (induction k arbitrary: es)
  case (Suc k)
  then show ?case
    by (cases es) (simp_all add: add.commute [of g] drop_drop [symmetric] del: drop_drop)
qed simp

subsection \<open>The state after a part of a file\<close>

text \<open>What the parser knows after the bytes \<open>d\<close> of the file: \<open>h0\<close> is the heap it started on.\<close>

definition in_header :: "nd_parse_ctx \<Rightarrow> bytes \<Rightarrow> bool" where
  "in_header npc d \<longleftrightarrow> \<not> header_parsed npc \<and> head_pos npc = length d \<and> take (length d) (head npc) = d \<and>
     nr_consumed npc = 0"

definition in_body :: "u32 \<Rightarrow> bytes list \<Rightarrow> nd_parse_ctx \<Rightarrow> nat \<Rightarrow> bytes \<Rightarrow> bool" where
  "in_body ver es npc k b \<longleftrightarrow> header_parsed npc \<and> version npc = ver \<and> nr_total npc = length es \<and>
     k \<le> length es \<and> k * goal_of ver \<le> length b \<and>
     (k < length es \<longrightarrow> nr_consumed npc = k \<and> length b < (k + 1) * goal_of ver \<and>
        cur_e_pos npc = length b - k * goal_of ver \<and> take (cur_e_pos npc) (cur_e npc) = drop (k * goal_of ver) b)"

definition nd_rel ::
  "malloc \<Rightarrow> endian \<Rightarrow> u32 \<Rightarrow> bytes list \<Rightarrow> heap \<Rightarrow> heap \<times> nd_parse_ctx \<Rightarrow> bytes \<Rightarrow> bool" where
  "nd_rel malloc e ver es h0 s d \<longleftrightarrow>
     malloc_total malloc \<and> file_ok ver es \<and> finite (dom h0) \<and> error (snd s) = 0 \<and>
     (\<exists>ns. parser_ok (fst s) (snd s) ns \<and>
        extends e h0 (fst s) ns (map (decode_entry ver) (take (length ns) es)) \<and>
        (if length d < header_len ver then ns = [] \<and> fst s = h0 \<and> in_header (snd s) d
         else in_body ver es (snd s) (length ns) (drop (header_len ver) d)))"

definition nd_step :: "malloc \<Rightarrow> endian \<Rightarrow> heap \<times> nd_parse_ctx \<Rightarrow> bytes \<Rightarrow> (int \<times> heap \<times> nd_parse_ctx) option" where
  "nd_step malloc e s c = nd_parse_proc malloc e (fst s) (snd s) c (length c)"

text \<open>The entries in the next chunk, when the header has been read.\<close>

lemma nd_parse_body_step:
  assumes malloc: "malloc_total malloc" and fok: "file_ok ver es" and fin: "finite (dom h)"
    and ok: "parser_ok h npc ns" and err: "error npc = 0"
    and body: "in_body ver es npc (length ns) b"
    and whole: "concat es = b @ take len buf @ r" and len: "len \<le> length buf" "consumed + len \<le> INT_MAX"
    and k: "length ns < length es"
  obtains h' npc' ms where
    "nd_parse_body malloc e h npc buf len consumed = Some (int (consumed + len), h', npc')"
    "parser_ok h' npc' (ns @ ms)" "error npc' = 0"
    "extends e h h' ms (map (decode_entry ver) (take (length ms) (drop (length ns) es)))"
    "in_body ver es npc' (length ns + length ms) (b @ take len buf)"
proof -
  let ?k = "length ns" and ?g = "goal_of ver" and ?pos = "cur_e_pos npc"
  let ?data = "entry_data npc ?pos buf len" and ?left = "length es - length ns"
  have l64: "len < 2 ^ 64" using len(2) unfolding INT_MAX_def by simp
  have es: "list_all (\<lambda>en. length en = ?g) es" "length es < 2 ^ 32" "ver = 0 \<or> ver = 2"
    using fok by (auto simp: file_ok_def)
  have b: "header_parsed npc" "version npc = ver" "nr_total npc = length es" "?k \<le> length es" "?k * ?g \<le> length b"
    using body by (simp_all add: in_body_def)
  have total: "length b + len + length r = length es * ?g"
    using arg_cong [OF whole, of length] length_concat_entries [OF es(1)] len(1) by simp
  have p: "nr_consumed npc = ?k" "?pos = length b - ?k * ?g" "take ?pos (cur_e npc) = drop (?k * ?g) b"
    using body k unfolding in_body_def by blast+
  have data: "?data = drop (?k * ?g) (b @ take len buf)"
    using p(3) b(5) by (simp add: entry_data_def)
  have rest: "concat (drop ?k es) = ?data @ r"
    using drop_concat_entries [OF es(1), of ?k] whole data b(5) by simp
  have dlen: "length ?data + length r = ?left * ?g"
    using arg_cong [OF rest, of length] length_concat_entries [of ?g "drop ?k es"] es(1)
    by (simp add: list_all_length)
  have data_len: "length ?data = ?pos + len"
    by (rule entry_data_length [OF parser_ok_round [OF ok len(1) l64]])
  have mods: "nr_total npc mod 2 ^ 32 = length es" "nr_consumed npc mod 2 ^ 32 = ?k"
    using b(3) p(1) k es(2) by simp_all
  have mok: "malloc_ok malloc" using malloc by (simp add: malloc_total_def)
  have v: "version npc = 0 \<or> version npc = 2" using b(2) es(3) by simp
  from nd_entries_all [OF mok parser_ok_round [OF ok len(1) l64] refl, where tot = "length es" and nr = ?k and e = e
      and consumed = consumed]
  obtain q h' npc' ms where q: "nd_parse_body malloc e h npc buf len consumed = Some (q, h', npc')"
      "extends e h h' ms (map (decode_entry ver) (entries_of ?g (length ms) ?data))"
      "ends_done npc ?data consumed ?left ?pos ?g (length ms) q npc' \<or>
       ends_part npc ?data len consumed ?left ?g ?k (length ms) q npc' \<or>
       ends_fail malloc h' npc ?data ?left ?g ?k (length ms) npc'"
      "ctx_list h' npc' (ns @ ms)" "length (cur_e npc') = 34"
    unfolding nd_parse_body_entries [OF v] mods b(2) by blast
  have "\<not> ends_fail malloc h' npc ?data ?left ?g ?k (length ms) npc'"
    using malloc extends_finite [OF q(2) fin] unfolding ends_fail_def malloc_total_def by fastforce
  with q(3) have ends: "ends_done npc ?data consumed ?left ?pos ?g (length ms) q npc' \<or>
       ends_part npc ?data len consumed ?left ?g ?k (length ms) q npc'" by blast
  have n: "length ms \<le> ?left" "length ms * ?g \<le> length ?data"
    using ends by (auto simp: ends_done_def ends_part_def)
  then have ent: "entries_of ?g (length ms) ?data = take (length ms) (drop ?k es)"
    using es(1) rest by (intro entries_of_concat) (auto simp: list_all_length)
  have km: "(?k + length ms) * ?g \<le> length (b @ take len buf)"
    using n(2) data b(5) by (simp add: distrib_right)
  have "q = int (consumed + len) \<and> error npc' = 0 \<and> head npc' = head npc \<and> cur_e_pos npc' < ?g \<and>
      in_body ver es npc' (?k + length ms) (b @ take len buf)"
    using ends
  proof
    assume d: "ends_done npc ?data consumed ?left ?pos ?g (length ms) q npc'"
    then have ms: "length ms = ?left" by (simp add: ends_done_def)
    from d have "npc' = npc\<lparr>cur_e := cur_e npc', peers := peers npc', tail := tail npc'\<rparr>"
      unfolding ends_done_def by blast
    then obtain x y z where npc': "npc' = npc\<lparr>cur_e := x, peers := y, tail := z\<rparr>" by blast
    have "length ms * ?g = length ?data" using n(2) dlen ms by simp
    then have "consumed + (length ms * ?g - ?pos) = consumed + len" using data_len by simp
    with d have "q = int (consumed + len)"
      using to_int_small [OF len(2)] by (simp add: ends_done_def)
    with npc' b err ms k km ok show ?thesis
      by (simp add: in_body_def parser_ok_def)
  next
    assume d: "ends_part npc ?data len consumed ?left ?g ?k (length ms) q npc'"
    then obtain x y z where npc': "npc' = npc\<lparr>cur_e := x, peers := y, tail := z,
        cur_e_pos := length ?data - length ms * ?g, nr_consumed := ?k + length ms\<rparr>"
      unfolding ends_part_def by blast
    from d have part: "length ?data < (length ms + 1) * ?g"
        "take (length ?data - length ms * ?g) (cur_e npc') = drop (length ms * ?g) ?data" "length ms < ?left"
      by (simp_all add: ends_part_def)
    from d have "q = int (consumed + len)"
      using to_int_small [OF len(2)] by (simp add: ends_part_def)
    moreover have "length ?data - length ms * ?g < ?g"
      using part(1) goal_of_pos [of ver] unfolding distrib_right mult_1 by linarith
    moreover have "length ?data - length ms * ?g = length (b @ take len buf) - (?k + length ms) * ?g"
      "length (b @ take len buf) < (?k + length ms + 1) * ?g"
      "drop (length ms * ?g) ?data = drop ((?k + length ms) * ?g) (b @ take len buf)"
    proof -
      obtain B where B: "b @ take len buf = B" by blast
      with b(5) have "?k * ?g \<le> length B" by auto
      then show "length ?data - length ms * ?g = length (b @ take len buf) - (?k + length ms) * ?g"
        "length (b @ take len buf) < (?k + length ms + 1) * ?g"
        "drop (length ms * ?g) ?data = drop ((?k + length ms) * ?g) (b @ take len buf)"
        using part(1) unfolding data B by (simp_all add: distrib_right add.commute)
    qed
    ultimately show ?thesis
      using npc' b err part(2,3) km by (simp add: in_body_def)
  qed
  note fin = this
  have "parser_ok h' npc' (ns @ ms)"
    using q(4,5) fin ok b(1) by (simp add: parser_ok_def in_body_def)
  with q(1,2) fin ent show thesis by (intro that [of h' npc' ms]) simp_all
qed

text \<open>The same for a file without entries.\<close>

lemma nd_parse_body_rest:
  assumes malloc: "malloc_total malloc" and fok: "file_ok ver es" and fin: "finite (dom h)"
    and ok: "parser_ok h npc ns" and err: "error npc = 0"
    and body: "in_body ver es npc (length ns) b"
    and whole: "concat es = b @ take len buf @ r" and len: "len \<le> length buf" "consumed + len \<le> INT_MAX"
    and k: "length ns < length es \<or> es = []"
  shows "\<exists>h' npc' ms.
    nd_parse_body malloc e h npc buf len consumed = Some (int (consumed + len), h', npc') \<and>
    parser_ok h' npc' (ns @ ms) \<and> error npc' = 0 \<and>
    extends e h h' ms (map (decode_entry ver) (take (length ms) (drop (length ns) es))) \<and>
    in_body ver es npc' (length ns + length ms) (b @ take len buf)"
proof (cases "length ns < length es")
  case True
  then show ?thesis
    using nd_parse_body_step [OF malloc fok fin ok err body whole len, of e] by metis
next
  case False
  with k have es: "es = []" by simp
  with whole len(1) have l: "take len buf = []" "len = 0" by auto
  have "version npc = ver" "nr_total npc = 0"
    using body es by (simp_all add: in_body_def)
  moreover have "ver = 0 \<or> ver = 2" using fok by (auto simp: file_ok_def)
  ultimately have "nd_parse_body malloc e h npc buf len consumed = Some (to_int consumed, h, npc)"
    by (subst nd_parse_body_entries) (auto simp: nd_entries_end)
  with l len(2) to_int_small [of consumed] ok err body show ?thesis
    by (intro exI [of _ h] exI [of _ npc] exI [of _ "[]"]) (simp add: extends_refl)
qed

subsection \<open>One chunk\<close>

lemma header_prefix:
  assumes "file_ok ver es" "nd_file ver es = x @ y"
  shows "4 \<le> length x \<Longrightarrow> ver = 0 \<Longrightarrow> le32 x \<noteq> 0 \<and> unat (le32 x) = length es"
    and "4 \<le> length x \<Longrightarrow> ver = 2 \<Longrightarrow> le32 x = 0"
    and "12 \<le> length x \<Longrightarrow> ver = 2 \<Longrightarrow> le32 (drop 4 x) = 2 \<and> unat (le32 (drop 8 x)) = length es"
proof -
  have n: "ver = 0 \<and> 0 < length es \<or> ver = 2" "length es < 2 ^ 32"
    using assms(1) by (auto simp: file_ok_def)
  have f: "file_header ver (length es) @ concat es = x @ y"
    using assms(2) by (simp add: nd_file_def)
  have le: "le32 (drop k (x @ y)) = le32 (drop k x)" if "k + 4 \<le> length x" for k
    using that by (simp add: le32_def)
  note hf = header_fields [OF n, of "concat es", unfolded f]
  show "4 \<le> length x \<Longrightarrow> ver = 0 \<Longrightarrow> le32 x \<noteq> 0 \<and> unat (le32 x) = length es"
    using hf(1) le [of 0] by simp
  show "4 \<le> length x \<Longrightarrow> ver = 2 \<Longrightarrow> le32 x = 0"
    using hf(2) le [of 0] by simp
  show "12 \<le> length x \<Longrightarrow> ver = 2 \<Longrightarrow> le32 (drop 4 x) = 2 \<and> unat (le32 (drop 8 x)) = length es"
    using hf(3,4) le [of 4] le [of 8] by simp
qed

lemma nd_file_body:
  assumes "nd_file ver es = x @ y" "header_len ver \<le> length x"
  shows "concat es = drop (header_len ver) x @ y"
  using arg_cong [OF assms(1), of "drop (header_len ver)"] assms(2)
  by (simp add: nd_file_def length_file_header)

text \<open>The entries behind a header that has just been read.\<close>

lemma nd_rel_first:
  assumes rel: "malloc_total malloc" "file_ok ver es" "finite (dom h)"
    and npc: "parser_ok h npc []" "error npc = 0" "in_body ver es npc 0 []"
    and whole: "nd_file ver es = d @ c @ r" "header_len ver = length d + k" "k \<le> length c" "length c \<le> INT_MAX"
  shows "\<exists>h' npc'. nd_parse_body malloc e h npc (drop k c) (size_sub (length c) k) k = Some (int (length c), h', npc') \<and>
    nd_rel malloc e ver es h (h', npc') (d @ c)"
proof -
  have sub: "size_sub (length c) k = length c - k"
    using whole(3,4) unfolding INT_MAX_def by (intro size_sub_le) simp_all
  have b: "concat es = [] @ take (length c - k) (drop k c) @ r"
    using nd_file_body [of ver es "d @ c" r] whole(1-3) by simp
  obtain h' npc' ms where
    "nd_parse_body malloc e h npc (drop k c) (length c - k) k = Some (int (k + (length c - k)), h', npc')"
    "parser_ok h' npc' ([] @ ms)" "error npc' = 0"
    "extends e h h' ms (map (decode_entry ver) (take (length ms) (drop 0 es)))"
    "in_body ver es npc' (0 + length ms) ([] @ take (length c - k) (drop k c))"
    using nd_parse_body_rest [OF rel npc(1,2) _ b, of k e] npc(3) whole(3,4) by auto
  with rel whole show ?thesis
    by (intro exI [of _ h'] exI [of _ npc']) (auto simp: nd_rel_def sub)
qed

lemma nd_rel_step:
  assumes rel: "nd_rel malloc e ver es h0 s d" and whole: "nd_file ver es = d @ c @ r" and c: "chunk_ok c"
  shows "\<exists>s'. nd_step malloc e s c = Some (int (length c), s') \<and> nd_rel malloc e ver es h0 s' (d @ c)"
proof -
  obtain h npc where s: "s = (h, npc)" by (cases s)
  let ?H = "header_len ver"
  from rel obtain ns where g: "malloc_total malloc" "file_ok ver es" "finite (dom h0)" "error npc = 0"
      "parser_ok h npc ns" "extends e h0 h ns (map (decode_entry ver) (take (length ns) es))"
    and cases: "if length d < ?H then ns = [] \<and> h = h0 \<and> in_header npc d
        else in_body ver es npc (length ns) (drop ?H d)"
    unfolding nd_rel_def s fst_conv snd_conv by blast
  have fin: "finite (dom h)" using g(3,6) by (rule extends_finite [rotated])
  have len: "length c \<noteq> 0" "length c \<le> INT_MAX" "length c < 2 ^ 64"
    using c by (auto simp: chunk_ok_def INT_MAX_def)
  show ?thesis
  proof (cases "length d < ?H")
    case False
    with cases have body: "in_body ver es npc (length ns) (drop ?H d)" by simp
    have w: "concat es = drop ?H d @ take (length c) c @ r"
      using nd_file_body [of ver es d "c @ r"] whole False by simp
    have k: "length ns < length es"
    proof (rule ccontr)
      assume "\<not> length ns < length es"
      with body have "length es * goal_of ver \<le> length (drop ?H d)"
        unfolding in_body_def by (metis le_neq_implies_less)
      moreover have "length (concat es) = length es * goal_of ver"
        using g(2) length_concat_entries by (auto simp: file_ok_def)
      ultimately show False using arg_cong [OF w, of length] len(1) by simp
    qed
    obtain h' npc' ms where n:
      "nd_parse_body malloc e h npc c (length c) 0 = Some (int (0 + length c), h', npc')"
      "parser_ok h' npc' (ns @ ms)" "error npc' = 0"
      "extends e h h' ms (map (decode_entry ver) (take (length ms) (drop (length ns) es)))"
      "in_body ver es npc' (length ns + length ms) (drop ?H d @ take (length c) c)"
      using nd_parse_body_rest [OF g(1,2) fin g(5,4) body w order.refl, of 0 e] len(2) k by auto
    have "extends e h0 h' (ns @ ms) (map (decode_entry ver) (take (length (ns @ ms)) es))"
      using extends_trans [OF g(6) n(4)] by (simp add: take_add)
    with n g(1-3) False have "nd_rel malloc e ver es h0 (h', npc') (d @ c)"
      by (auto simp: nd_rel_def intro!: exI [of _ "ns @ ms"])
    moreover have "header_parsed npc" using body by (simp add: in_body_def)
    ultimately show ?thesis
      using n(1) g(4) len(1) s by (simp add: nd_step_def nd_parse_proc_def)
  next
    case True
    with cases have h: "ns = []" "h = h0" "in_header npc d" by simp_all
    then have hdr: "\<not> header_parsed npc" "head_pos npc = length d" "take (length d) (head npc) = d" "nr_consumed npc = 0"
      by (simp_all add: in_header_def)
    with g(5) h(1) have ok: "header_ok npc" "cur_e_pos npc = 0" "ctx_list h npc []" "length (cur_e npc) = 34"
      by (simp_all add: parser_ok_def)
    have data: "header_data npc c (length c) = d @ c"
      using hdr by (simp add: header_data_def)
    have v: "ver = 0 \<or> ver = 2" using g(2) by (auto simp: file_ok_def)
    have whole': "nd_file ver es = (d @ c) @ r" using whole by simp
    note prefix = header_prefix [OF g(2) whole']
    from ok(1) order.refl len(3) show ?thesis
    proof (cases rule: header_parser_cases [where e = e])
      case (more x)
      note more = more [unfolded data]
      have short: "length (d @ c) < ?H"
        using more(1,2) prefix(1) v by (cases "4 \<le> length (d @ c)") (auto simp: header_len_def not_le)
      have "parser_ok h (npc\<lparr>head := x, head_pos := length (d @ c)\<rparr>) []"
        using header_ok_more [OF more(3,4,1,2), of npc] ok more(3) g(5)
        by (simp add: parser_ok_def ctx_list_def)
      with g(1-4,6) h more hdr short have "nd_rel malloc e ver es h0 (h, npc\<lparr>head := x, head_pos := length (d @ c)\<rparr>) (d @ c)"
        by (simp add: nd_rel_def in_header_def)
      with more(5) hdr(1) g(4) len s to_int_small [OF len(2)] show ?thesis
        by (simp add: nd_step_def nd_parse_proc_def)
    next
      case (v0 x)
      note v0 = v0 [unfolded data hdr(2)]
      with prefix(2) v have ver: "ver = 0" by auto
      with prefix(1) v0(2) have nr: "unat (le32 (d @ c)) = length es" by blast
      let ?npc = "npc\<lparr>head := x, head_pos := 4, version := 0, nr_total := unat (le32 (d @ c)), header_parsed := True\<rparr>"
      have "\<exists>h' npc'. nd_parse_body malloc e h ?npc (drop (4 - length d) c) (size_sub (length c) (4 - length d)) (4 - length d) =
            Some (int (length c), h', npc') \<and> nd_rel malloc e ver es h (h', npc') (d @ c)"
        using ok v0 ver nr hdr(4) g(4) len(2) goal_of_pos True
        by (intro nd_rel_first [OF g(1,2) fin _ _ _ whole])
           (simp_all add: parser_ok_def ctx_list_def in_body_def header_len_def)
      with v0(5) hdr(1) g(4) len(1) s h(2) show ?thesis
        by (auto simp: nd_step_def nd_parse_proc_def)
    next
      case (full x)
      note full = full [unfolded data hdr(2)]
      with prefix(1) v have ver: "ver = 2" by auto
      with prefix(3) full(1) have nr: "le32 (drop 4 (d @ c)) = 2" "unat (le32 (drop 8 (d @ c))) = length es" by blast+
      let ?npc = "npc\<lparr>head := x, head_pos := 12, version := le32 (drop 4 (d @ c)),
          nr_total := unat (le32 (drop 8 (d @ c))), header_parsed := True\<rparr>"
      have "\<exists>h' npc'. nd_parse_body malloc e h ?npc (drop (12 - length d) c) (size_sub (length c) (12 - length d)) (12 - length d) =
            Some (int (length c), h', npc') \<and> nd_rel malloc e ver es h (h', npc') (d @ c)"
        using ok full(1,3) ver nr hdr(4) g(4) len(2) goal_of_pos True
        by (intro nd_rel_first [OF g(1,2) fin _ _ _ whole])
           (simp_all add: parser_ok_def ctx_list_def in_body_def header_len_def)
      with full(4) hdr(1) g(4) len(1) s h(2) show ?thesis
        by (auto simp: nd_step_def nd_parse_proc_def)
    qed
  qed
qed

end
