(* ===== verification/Nodes_Result.thy ===== *)
theory Nodes_Result
  imports Nodes_Whole
begin

text \<open>
  The result of parsing a whole file, or a part of one, through the interface of Chunks.
\<close>

interpretation nd: incremental "nd_step malloc e" "nd_rel malloc e ver es h0" "nd_file ver es"
  for malloc e ver es h0
  by unfold_locales (rule nd_rel_step)

lemma nd_rel_init:
  assumes "malloc_total malloc" "file_ok ver es" "finite (dom h0)" "length (head npc) = 12" "length (cur_e npc) = 34"
  shows "nd_rel malloc e ver es h0 (h0, snd (nd_parse_init npc)) []"
proof -
  have "parser_ok h0 (snd (nd_parse_init npc)) []" using assms(4,5) by (rule parser_ok_init)
  with assms(1-3) show ?thesis
    by (simp add: nd_rel_def extends_refl in_header_def nd_parse_init_def header_len_def)
qed

lemma nd_rel_whole:
  assumes "nd_rel malloc e ver es h0 s (nd_file ver es)"
  obtains ns where "parser_ok (fst s) (snd s) ns" "extends e h0 (fst s) ns (map (decode_entry ver) es)"
    "length ns = length es" "error (snd s) = 0"
proof -
  have H: "\<not> length (nd_file ver es) < header_len ver" "drop (header_len ver) (nd_file ver es) = concat es"
    by (simp_all add: nd_file_def length_file_header)
  with assms obtain ns where ns: "parser_ok (fst s) (snd s) ns" "file_ok ver es" "error (snd s) = 0"
      "extends e h0 (fst s) ns (map (decode_entry ver) (take (length ns) es))"
      "in_body ver es (snd s) (length ns) (concat es)"
    unfolding nd_rel_def by auto
  have len: "length (concat es) = length es * goal_of ver"
    using ns(2) length_concat_entries by (auto simp: file_ok_def)
  have "length ns = length es"
  proof (rule ccontr)
    assume "length ns \<noteq> length es"
    with ns(5) have "length ns < length es" "length (concat es) < (length ns + 1) * goal_of ver"
      unfolding in_body_def by auto
    moreover from this(1) have "(length ns + 1) * goal_of ver \<le> length es * goal_of ver"
      by (intro mult_le_mono1) simp
    ultimately show False using len by linarith
  qed
  with ns that show thesis by simp
qed

text \<open>The entries that are complete in the first bytes of a file.\<close>

definition complete :: "u32 \<Rightarrow> bytes \<Rightarrow> nat" where
  "complete ver d = (length d - header_len ver) div goal_of ver"

lemma complete_whole: "file_ok ver es \<Longrightarrow> complete ver (nd_file ver es) = length es"
  using length_concat_entries [of "goal_of ver" es] goal_of_pos [of ver]
  by (auto simp: complete_def nd_file_def length_file_header file_ok_def)

lemma nd_rel_prefix:
  assumes rel: "nd_rel malloc e ver es h0 s d" and d: "nd_file ver es = d @ r"
  obtains ns where "parser_ok (fst s) (snd s) ns" "length ns = complete ver d"
    "extends e h0 (fst s) ns (map (decode_entry ver) (take (complete ver d) es))"
proof (cases "length d < header_len ver")
  case True
  with rel obtain ns where "parser_ok (fst s) (snd s) ns" "ns = []" "extends e h0 (fst s) ns (map (decode_entry ver) (take (length ns) es))"
    unfolding nd_rel_def by auto
  moreover have "complete ver d = 0" using True by (simp add: complete_def)
  ultimately show thesis using that by simp
next
  case False
  let ?b = "drop (header_len ver) d" and ?g = "goal_of ver"
  from rel False obtain ns where ns: "parser_ok (fst s) (snd s) ns" "file_ok ver es"
      "extends e h0 (fst s) ns (map (decode_entry ver) (take (length ns) es))" "in_body ver es (snd s) (length ns) ?b"
    unfolding nd_rel_def by auto
  have "concat es = ?b @ r" using nd_file_body [OF d] False by simp
  then have "length ?b \<le> length (concat es)" by simp
  also have "\<dots> = length es * ?g" using ns(2) length_concat_entries by (auto simp: file_ok_def)
  finally have le: "length ?b \<le> length es * ?g" .
  have "length ?b div ?g = length ns"
  proof (cases "length ns < length es")
    case True
    with ns(4) have "length ns * ?g \<le> length ?b" "length ?b < (length ns + 1) * ?g" by (auto simp: in_body_def)
    then show ?thesis by (intro div_nat_eqI) (simp_all add: mult.commute)
  next
    case False
    with ns(4) have "length ns = length es" "length ns * ?g \<le> length ?b" by (auto simp: in_body_def)
    with le have "length ?b = length ns * ?g" by simp
    with goal_of_pos [of ver] show ?thesis by simp
  qed
  then have "complete ver d = length ns" by (simp add: complete_def)
  with ns that show thesis by simp
qed

lemma extends_contacts: "extends e h h' ns cs \<Longrightarrow> contacts e h' ns = map Some cs"
  by (simp add: extends_def)

end
