(* ===== verification/Reader.thy ===== *)
theory Reader
  imports Nodes_Result Bencode
begin

text \<open>
  The programs that read a \<open>nodes.dat\<close> file and print its contacts: \<open>nd_reader.c\<close>, and
  \<open>load_peers\<close> with its \<open>print_kad_peers\<close> in \<open>unix.c\<close>. \<open>getnameinfo\<close> belongs to the system: it is an
  argument, which gives the texts of host and port or fails. The output is the list of bytes written to
  \<open>stdout\<close>; a file is the bytes \<open>fread\<close> delivers, or \<open>None\<close> when \<open>fopen\<close> fails.
\<close>

subsection \<open>Printing (nd_reader.c, unix.c)\<close>

type_synonym getnameinfo = "sockaddr_in \<Rightarrow> (bytes \<times> bytes) option"

text \<open>\<open>printf("%15s %s\<bar>n", host, serv)\<close>.\<close>

definition print_line :: "bytes \<Rightarrow> bytes \<Rightarrow> bytes" where
  "print_line host serv = replicate (15 - length host) 32 @ host @ [32] @ serv @ [10]"

text \<open>\<open>buf\<close> is what the two arrays hold, \<open>None\<close> before anything was written to them; the status of
  \<open>getnameinfo\<close> is not looked at.\<close>

partial_function (option) print_kad_peers ::
  "getnameinfo \<Rightarrow> heap \<Rightarrow> ptr option \<Rightarrow> (bytes \<times> bytes) option \<Rightarrow> bytes \<Rightarrow> bytes option" where
  "print_kad_peers getname h peer buf out =
     (case peer of
        None \<Rightarrow> Some out
      | Some a \<Rightarrow>
          (case h a of
             None \<Rightarrow> None
           | Some kp \<Rightarrow>
               (case (case getname (kp_tcp kp) of None \<Rightarrow> buf | Some names \<Rightarrow> Some names) of
                  None \<Rightarrow> None
                | Some (host, serv) \<Rightarrow>
                    print_kad_peers getname h (p_next (kp_peer kp)) (Some (host, serv)) (out @ print_line host serv))))"

subsection \<open>Reading (nd_reader.c, unix.c)\<close>

text \<open>The successive results of \<open>fread(buf, 1, 2048, in)\<close>.\<close>

function freads :: "bytes \<Rightarrow> bytes list" where
  "freads bs = (if bs = [] then [] else take 2048 bs # freads (drop 2048 bs))"
  by pat_completeness auto
termination by (relation "measure length") auto

declare freads.simps [simp del]

fun read_loop :: "malloc \<Rightarrow> endian \<Rightarrow> heap \<Rightarrow> nd_parse_ctx \<Rightarrow> bytes list \<Rightarrow>
    (int \<times> heap + heap \<times> nd_parse_ctx) option" where
  "read_loop malloc e h npc [] = Some (Inr (h, npc))"
| "read_loop malloc e h npc (buf # bufs) = do {
     (p, h, npc) \<leftarrow> nd_parse_proc malloc e h npc buf (length buf);
     if p < 0 then do { (h, npc) \<leftarrow> nd_parse_destroy h npc; Some (Inl (p, h)) }
     else read_loop malloc e h npc bufs
   }"

text \<open>What follows \<open>fopen\<close> in both programs: the exit status (none when control falls off the end), the
  output and the heap.\<close>

definition read_file :: "int option \<Rightarrow> getnameinfo \<Rightarrow> malloc \<Rightarrow> endian \<Rightarrow> heap \<Rightarrow> nd_parse_ctx \<Rightarrow> bytes \<Rightarrow>
    (int option \<times> bytes \<times> heap) option" where
  "read_file done getname malloc e h npc0 file =
     (let (r, npc) = nd_parse_init npc0 in
      if r \<noteq> 0 then Some (Some 2, [], h)
      else do {
        s \<leftarrow> read_loop malloc e h npc (freads file);
        case s of
          Inl (p, h) \<Rightarrow> Some (Some 3, str ''god: '' @ enc_int p @ [10], h)
        | Inr (h, npc) \<Rightarrow>
            (let (peers, npc) = nd_parse_get_peers npc in
             if peers = None then do { (h, npc) \<leftarrow> nd_parse_destroy h npc; Some (Some 4, [], h) }
             else do {
               out \<leftarrow> print_kad_peers getname h peers None [];
               h \<leftarrow> free_kad_peers h peers;
               (h, npc) \<leftarrow> nd_parse_destroy h npc;
               Some (done, out, h)
             })
      })"

text \<open>\<open>main\<close> of \<open>nd_reader.c\<close> does not look at the result of \<open>fopen\<close>: reading from a null
  stream is undefined.\<close>

definition nd_reader_main :: "getnameinfo \<Rightarrow> malloc \<Rightarrow> endian \<Rightarrow> heap \<Rightarrow> nd_parse_ctx \<Rightarrow> bytes option \<Rightarrow>
    (int option \<times> bytes \<times> heap) option" where
  "nd_reader_main getname malloc e h npc0 f =
     (case f of None \<Rightarrow> None | Some bs \<Rightarrow> read_file (Some 0) getname malloc e h npc0 bs)"

text \<open>\<open>load_peers\<close> of \<open>unix.c\<close> has no \<open>return\<close> at its end.\<close>

definition load_peers :: "getnameinfo \<Rightarrow> malloc \<Rightarrow> endian \<Rightarrow> heap \<Rightarrow> nd_parse_ctx \<Rightarrow> bytes option \<Rightarrow>
    (int option \<times> bytes \<times> heap) option" where
  "load_peers getname malloc e h npc0 f =
     (case f of None \<Rightarrow> Some (Some 4, [], h) | Some bs \<Rightarrow> read_file None getname malloc e h npc0 bs)"

subsection \<open>What they do with a valid file\<close>

text \<open>\<open>getnameinfo\<close> with \<open>NI_NUMERICHOST | NI_NUMERICSERV\<close>: \<open>names\<close> gives the texts for the bytes of an
  address and a port.\<close>

definition getname_ok :: "endian \<Rightarrow> getnameinfo \<Rightarrow> (bytes \<Rightarrow> nat \<Rightarrow> bytes \<times> bytes) \<Rightarrow> bool" where
  "getname_ok e getname names \<longleftrightarrow> (\<forall>sa. sin_family sa = AF_INET \<longrightarrow>
     getname sa = Some (names (bytes_of_u32 e (s_addr sa)) (net16 (bytes_of_u16 e (sin_port sa)))))"

definition contact_line :: "(bytes \<Rightarrow> nat \<Rightarrow> bytes \<times> bytes) \<Rightarrow> contact \<Rightarrow> bytes" where
  "contact_line names c = case_prod print_line (names (c_ip c) (c_tcp c))"

lemma print_list:
  assumes "getname_ok e getname names"
  shows "peer_list h p as \<Longrightarrow> contacts e h as = map Some cs \<Longrightarrow> list_all c_inet cs \<Longrightarrow>
    print_kad_peers getname h p buf out = Some (out @ concat (map (contact_line names) cs))"
proof (induction as arbitrary: p cs buf out)
  case Nil
  then show ?case by (simp add: print_kad_peers.simps contacts_def)
next
  case (Cons a as)
  then obtain kp c cs' where kp: "p = Some a" "h a = Some kp" "peer_list h (p_next (kp_peer kp)) as"
      "cs = c # cs'" "contact_of e kp = c" "contacts e h as = map Some cs'" "c_inet c" "list_all c_inet cs'"
    by (cases cs) (auto simp: contacts_def)
  obtain host serv where n: "names (c_ip c) (c_tcp c) = (host, serv)" by (cases "names (c_ip c) (c_tcp c)")
  have "getname (kp_tcp kp) = Some (host, serv)"
    using assms kp(5,7) n by (auto simp: getname_ok_def contact_of_def)
  moreover have "contact_line names c = print_line host serv" using n by (simp add: contact_line_def)
  ultimately show ?case
    using kp Cons.IH [OF kp(3,6,8)] by (subst print_kad_peers.simps) simp
qed

lemma concat_freads: "concat (freads bs) = bs"
proof (induction bs rule: freads.induct)
  case (1 bs)
  then show ?case by (cases "bs = []") (simp_all add: freads.simps [of bs] freads.simps [of "[]"])
qed

lemma freads_ok: "list_all chunk_ok (freads bs)"
proof (induction bs rule: freads.induct)
  case (1 bs)
  then show ?case
    by (cases "bs = []") (simp_all add: freads.simps [of bs] freads.simps [of "[]"] chunk_ok_def INT_MAX_def)
qed

lemma read_loop_feed:
  "feed (nd_step malloc e) (h, npc) cs = Some (map (\<lambda>c. int (length c)) cs, s) \<Longrightarrow>
     read_loop malloc e h npc cs = Some (Inr s)"
proof (induction cs arbitrary: h npc)
  case (Cons c cs)
  then obtain s' where s': "nd_step malloc e (h, npc) c = Some (int (length c), s')"
      "feed (nd_step malloc e) s' cs = Some (map (\<lambda>c. int (length c)) cs, s)"
    by (auto split: bind_splits)
  obtain h' npc' where "s' = (h', npc')" by (cases s')
  with s'(2) have "read_loop malloc e h' npc' cs = Some (Inr s)"
    by (intro Cons.IH) simp
  with s'(1) \<open>s' = (h', npc')\<close> show ?case by (simp add: nd_step_def)
qed simp

text \<open>A file that breaks off after the bytes \<open>d\<close>: the contacts that are complete are printed, status 4 when there
  is none.\<close>

lemma read_file_prefix:
  assumes "malloc_total malloc" "file_ok ver es" "finite (dom h0)" "length (head npc0) = 12" "length (cur_e npc0) = 34"
    "getname_ok e getname names" "nd_file ver es = d @ rest"
  obtains h where
    "read_file r getname malloc e h0 npc0 d =
       Some (if complete ver d = 0 then Some 4 else r,
         concat (map (contact_line names) (map (decode_entry ver) (take (complete ver d) es))), h)"
    "dom h = dom h0"
proof -
  obtain npc where init: "nd_parse_init npc0 = (0, npc)" by (simp add: nd_parse_init_def)
  then have "nd_rel malloc e ver es h0 (h0, npc) []"
    using nd_rel_init [OF assms(1-5), of e] by simp
  from nd.feed_rel [OF this, of "freads d" rest] assms(7)
  obtain h1 npc1 where feed: "feed (nd_step malloc e) (h0, npc) (freads d) =
        Some (map (\<lambda>c. int (length c)) (freads d), (h1, npc1))"
      and rel: "nd_rel malloc e ver es h0 (h1, npc1) d"
    by (auto simp: concat_freads freads_ok)
  obtain ns where ns: "parser_ok h1 npc1 ns" "length ns = complete ver d"
      "extends e h0 h1 ns (map (decode_entry ver) (take (complete ver d) es))"
    using nd_rel_prefix [OF rel assms(7)] by auto
  then have list: "peer_list h1 (peers npc1) ns" "distinct ns" by (simp_all add: parser_ok_def ctx_list_def)
  have out: "print_kad_peers getname h1 (peers npc1) None [] =
      Some (concat (map (contact_line names) (map (decode_entry ver) (take (complete ver d) es))))"
    using print_list [OF assms(6) list(1) extends_contacts [OF ns(3)] decode_inet] by simp
  have free: "free_kad_peers h1 (peers npc1) = Some (h1 |` (- set ns))"
    using list by (rule free_list)
  have dom: "dom (h1 |` (- set ns)) = dom h0" using ns(3) by (auto simp: extends_def)
  have none: "free_kad_peers h None = Some h" for h by (simp add: free_kad_peers.simps)
  show thesis
  proof (cases "ns = []")
    case True
    with list(1) have "peers npc1 = None" by (cases "peers npc1") auto
    with True ns(2) dom none init read_loop_feed [OF feed] show thesis
      by (intro that [of h1]) (simp_all add: read_file_def nd_parse_get_peers_def nd_parse_destroy_def)
  next
    case False
    with list(1) obtain a where "peers npc1 = Some a" by (cases ns) auto
    moreover from False ns(2) have "complete ver d \<noteq> 0" by (simp flip: ns(2))
    ultimately show thesis using init read_loop_feed [OF feed] out free dom none
      by (intro that [of "h1 |` (- set ns)"]) (simp_all add: read_file_def nd_parse_get_peers_def nd_parse_destroy_def)
  qed
qed

lemma read_file_valid:
  assumes "malloc_total malloc" "file_ok ver es" "finite (dom h0)" "length (head npc0) = 12" "length (cur_e npc0) = 34"
    "getname_ok e getname names" "es \<noteq> []"
  obtains h where
    "read_file r getname malloc e h0 npc0 (nd_file ver es) =
       Some (r, concat (map (contact_line names) (map (decode_entry ver) es)), h)"
    "dom h = dom h0"
  using read_file_prefix [OF assms(1-6), of "nd_file ver es" "[]" r] complete_whole [OF assms(2)] assms(7) by auto

subsection \<open>What they do with any file\<close>

lemma extends_freed: "extends e h0 h ns cs \<Longrightarrow> dom (h |` (- set ns)) = dom h0"
  by (auto simp: extends_def)

lemma free_kad_peers_None: "free_kad_peers h None = Some h"
  by (simp add: free_kad_peers.simps)

lemma destroy_extends:
  assumes "parser_ok h npc ns" "extends e h0 h ns cs"
  obtains h' npc' where "nd_parse_destroy h npc = Some (h', npc')" "dom h' = dom h0"
proof -
  have "ctx_list h npc ns" using assms(1) by (simp add: parser_ok_def)
  from nd_parse_destroy_list [OF this] extends_freed [OF assms(2)] that show thesis by metis
qed

text \<open>Whatever is read, the loop ends with an error and everything freed, or with a list of peers.\<close>

lemma read_loop_safe:
  assumes "malloc_ok malloc"
  shows "parser_ok h npc ns \<Longrightarrow> extends e h0 h ns cs \<Longrightarrow> list_all c_inet cs \<Longrightarrow> list_all chunk_ok bufs \<Longrightarrow>
    (\<exists>p h'. read_loop malloc e h npc bufs = Some (Inl (p, h')) \<and> p < 0 \<and> dom h' = dom h0) \<or>
    (\<exists>h' npc' ns' cs'. read_loop malloc e h npc bufs = Some (Inr (h', npc')) \<and> parser_ok h' npc' ns' \<and>
       extends e h0 h' ns' cs' \<and> list_all c_inet cs')"
proof (induction bufs arbitrary: h npc ns cs)
  case Nil
  then show ?case by auto
next
  case (Cons buf bufs)
  have buf: "length buf < 2 ^ 64" using Cons.prems(4) by (simp add: chunk_ok_def INT_MAX_def)
  obtain r h1 npc1 ms ds where step: "nd_parse_proc malloc e h npc buf (length buf) = Some (r, h1, npc1)"
      "parser_ok h1 npc1 (ns @ ms)" "extends e h h1 ms ds" "list_all c_inet ds"
    using nd_parse_proc_safe [OF assms Cons.prems(1) order.refl buf, of e] by blast
  have ext: "extends e h0 h1 (ns @ ms) (cs @ ds)" using Cons.prems(2) step(3) by (rule extends_trans)
  show ?case
  proof (cases "r < 0")
    case True
    from destroy_extends [OF step(2) ext] obtain h2 npc2 where "nd_parse_destroy h1 npc1 = Some (h2, npc2)" "dom h2 = dom h0" .
    with True step(1) show ?thesis by auto
  next
    case False
    then have "read_loop malloc e h npc (buf # bufs) = read_loop malloc e h1 npc1 bufs"
      using step(1) by simp
    with Cons.IH [OF step(2) ext] Cons.prems(3,4) step(4) show ?thesis by simp
  qed
qed

text \<open>Once a name was found the arrays are written; before that, the first peer decides.\<close>

lemma print_list_written: "peer_list h p as \<Longrightarrow> \<exists>out'. print_kad_peers getname h p (Some b) out = Some out'"
proof (induction as arbitrary: p b out)
  case Nil
  then show ?case by (simp add: print_kad_peers.simps)
next
  case (Cons a as)
  then obtain kp where kp: "p = Some a" "h a = Some kp" "peer_list h (p_next (kp_peer kp)) as" by auto
  obtain b' where "(case getname (kp_tcp kp) of None \<Rightarrow> Some b | Some names \<Rightarrow> Some names) = Some b'"
    by (cases "getname (kp_tcp kp)") auto
  with kp Cons.IH [OF kp(3), of b'] show ?case by (subst print_kad_peers.simps) (cases b'; simp)
qed

lemma print_list_first:
  assumes "peer_list h (Some a) as" "h a = Some kp"
  shows "(\<exists>out. print_kad_peers getname h (Some a) None [] = Some out) \<longleftrightarrow> getname (kp_tcp kp) \<noteq> None"
proof -
  obtain as' where as: "peer_list h (p_next (kp_peer kp)) as'" using assms by (cases as) auto
  show ?thesis
  proof (cases "getname (kp_tcp kp)")
    case None
    with assms(2) show ?thesis by (subst print_kad_peers.simps) simp
  next
    case (Some b)
    with assms(2) print_list_written [OF as, of getname b] show ?thesis
      by (subst print_kad_peers.simps) (cases b; simp)
  qed
qed

lemma read_file_any:
  assumes "malloc_ok malloc" "length (head npc0) = 12" "length (cur_e npc0) = 34"
  obtains (failed) p h where "read_loop malloc e h0 (snd (nd_parse_init npc0)) (freads bs) = Some (Inl (p, h))" "p < 0"
      "dom h = dom h0" "read_file r getname malloc e h0 npc0 bs = Some (Some 3, str ''god: '' @ enc_int p @ [10], h)"
    | (empty) h npc1 where "read_loop malloc e h0 (snd (nd_parse_init npc0)) (freads bs) = Some (Inr (h, npc1))" "peers npc1 = None"
      "dom h = dom h0" "read_file r getname malloc e h0 npc0 bs = Some (Some 4, [], h)"
    | (peers) h npc1 a kp where "read_loop malloc e h0 (snd (nd_parse_init npc0)) (freads bs) = Some (Inr (h, npc1))"
      "peers npc1 = Some a" "h a = Some kp"
      "if getname (kp_tcp kp) = None then read_file r getname malloc e h0 npc0 bs = None
       else \<exists>out h'. read_file r getname malloc e h0 npc0 bs = Some (r, out, h') \<and> dom h' = dom h0"
proof -
  note failed = that(1) and none = that(2) and some = that(3)
  obtain npc where init: "nd_parse_init npc0 = (0, npc)" by (simp add: nd_parse_init_def)
  have ok: "parser_ok h0 npc []" using parser_ok_init [OF assms(2,3)] init by simp
  from read_loop_safe [OF assms(1) ok extends_refl _ freads_ok [of bs], of e]
  consider p h where "read_loop malloc e h0 npc (freads bs) = Some (Inl (p, h))" "p < 0" "dom h = dom h0"
    | h npc1 ns cs where "read_loop malloc e h0 npc (freads bs) = Some (Inr (h, npc1))" "parser_ok h npc1 ns"
        "extends e h0 h ns cs" by auto
  then show thesis
  proof cases
    case 1
    with init show thesis by (intro failed [of p h]) (simp_all add: read_file_def)
  next
    case 2
    then have list: "peer_list h (peers npc1) ns" "distinct ns" by (simp_all add: parser_ok_def ctx_list_def)
    have dom: "dom (h |` (- set ns)) = dom h0" using 2(3) by (rule extends_freed)
    show thesis
    proof (cases "peers npc1")
      case None
      with list(1) have "ns = []" by (cases ns) auto
      with dom None init 2(1) show thesis
        by (intro none [of h npc1])
           (simp_all add: read_file_def nd_parse_get_peers_def nd_parse_destroy_def free_kad_peers_None)
    next
      case (Some a)
      with list(1) obtain kp where kp: "h a = Some kp" by (cases ns) auto
      note print = print_list_first [OF list(1) [unfolded Some] kp, of getname]
      have "if getname (kp_tcp kp) = None then read_file r getname malloc e h0 npc0 bs = None
          else \<exists>out h'. read_file r getname malloc e h0 npc0 bs = Some (r, out, h') \<and> dom h' = dom h0"
        using print dom init 2(1) free_list [OF list] Some
        by (auto simp: read_file_def nd_parse_get_peers_def nd_parse_destroy_def free_kad_peers_None)
      with 2(1) init Some kp show thesis by (intro some [of h npc1 a kp]) simp_all
    qed
  qed
qed

end
