(* ===== verification/Nodes_Calls.thy ===== *)
theory Nodes_Calls
  imports Nodes_Result
begin

text \<open>
  Single calls of \<open>nd_parse_proc\<close> from any state: calls that complete the header, the call that reads the last entry
  and goes on to bytes behind it, and the call in which \<open>malloc\<close> fails.
\<close>

subsection \<open>Calls that complete the header\<close>

text \<open>The context and the bytes consumed when the loop over the entries starts.\<close>

definition header_done :: "endian \<Rightarrow> nd_parse_ctx \<Rightarrow> bytes \<Rightarrow> nat \<Rightarrow> nd_parse_ctx \<Rightarrow> bool" where
  "header_done e npc buf c npc1 \<longleftrightarrow>
     (if header_parsed npc then c = 0 \<and> npc1 = npc
      else header_parser e npc buf (length buf) = Some (c, npc1) \<and> header_parsed npc1)"

lemma header_done_ok:
  assumes "header_done e npc buf c npc1" "parser_ok h npc as" "length buf < 2 ^ 64"
  shows "parser_ok h npc1 as" "header_parsed npc1" "c \<le> length buf" "error npc1 = error npc"
    "nr_consumed npc1 = nr_consumed npc" "cur_e_pos npc1 = cur_e_pos npc"
proof -
  have "parser_ok h npc1 as \<and> header_parsed npc1 \<and> c \<le> length buf \<and> error npc1 = error npc \<and>
      nr_consumed npc1 = nr_consumed npc \<and> cur_e_pos npc1 = cur_e_pos npc"
  proof (cases "header_parsed npc")
    case True
    with assms show ?thesis by (simp add: header_done_def)
  next
    case False
    with assms(1) have hp: "header_parser e npc buf (length buf) = Some (c, npc1)" "header_parsed npc1"
      by (simp_all add: header_done_def)
    from False assms(2) have ok: "header_ok npc" "cur_e_pos npc = 0" "ctx_list h npc as" "length (cur_e npc) = 34"
      by (auto simp: parser_ok_def)
    have len: "length (header_data npc buf (length buf)) = head_pos npc + length buf"
      using ok(1) by (simp add: header_data_def header_ok_def)
    from ok(1) order.refl assms(3) show ?thesis
    proof (cases rule: header_parser_cases [where e = e])
      case (more x)
      with hp False show ?thesis by auto
    next
      case (v0 x)
      with hp ok len goal_of_pos show ?thesis by (auto simp: parser_ok_def ctx_list_def)
    next
      case (full x)
      with hp ok len goal_of_pos show ?thesis by (auto simp: parser_ok_def ctx_list_def)
    qed
  qed
  then show "parser_ok h npc1 as" "header_parsed npc1" "c \<le> length buf" "error npc1 = error npc"
    "nr_consumed npc1 = nr_consumed npc" "cur_e_pos npc1 = cur_e_pos npc" by blast+
qed

lemma nd_parse_proc_done:
  assumes "header_done e npc buf c npc1" "parser_ok h npc as" "length buf < 2 ^ 64" "\<not> error npc < 0" "buf \<noteq> []"
  shows "nd_parse_proc malloc e h npc buf (length buf) = nd_parse_body malloc e h npc1 (drop c buf) (length (drop c buf)) c"
proof -
  have "size_sub (length buf) c = length (drop c buf)"
    using header_done_ok(3) [OF assms(1-3)] assms(3) by (simp add: size_sub_le)
  with assms(1,4,5) show ?thesis
    using nd_parse_proc_body [of npc "length buf" malloc e h buf] nd_parse_proc_header [of npc "length buf" e buf c npc1 malloc h]
    by (auto simp: header_done_def split: if_splits)
qed

subsection \<open>A call that reads the last entry\<close>

text \<open>What is left of an entry from the calls before, and the buffer.\<close>

abbreviation pending :: "nd_parse_ctx \<Rightarrow> bytes \<Rightarrow> bytes" where
  "pending npc buf \<equiv> take (cur_e_pos npc) (cur_e npc) @ buf"

lemma nd_body_completes:
  assumes malloc: "malloc_total malloc" and fin: "finite (dom h)" and ok: "parser_ok h npc as" "header_parsed npc"
    and v: "version npc = 0 \<or> version npc = 2"
    and n: "n = nr_total npc mod 2 ^ 32 - nr_consumed npc mod 2 ^ 32" "0 < n"
    and len: "n * goal_of (version npc) \<le> cur_e_pos npc + length buf" "consumed + length buf \<le> INT_MAX"
  obtains h' npc' ms where
    "nd_parse_body malloc e h npc buf (length buf) consumed =
       Some (int (consumed + (n * goal_of (version npc) - cur_e_pos npc)), h', npc')"
    "parser_ok h' npc' (as @ ms)" "npc' = npc\<lparr>cur_e := cur_e npc', peers := peers npc', tail := tail npc'\<rparr>"
    "extends e h h' ms (map (decode_entry (version npc)) (entries_of (goal_of (version npc)) n (pending npc buf)))"
proof -
  let ?g = "goal_of (version npc)" and ?pos = "cur_e_pos npc" and ?data = "entry_data npc (cur_e_pos npc) buf (length buf)"
  have l64: "length buf < 2 ^ 64" using len(2) unfolding INT_MAX_def by simp
  note round = parser_ok_round [OF ok(1) order.refl l64]
  have data: "?data = pending npc buf" by (simp add: entry_data_def)
  have mok: "malloc_ok malloc" using malloc by (simp add: malloc_total_def)
  from nd_entries_all [OF mok round refl, where tot = "nr_total npc mod 2 ^ 32"
      and nr = "nr_consumed npc mod 2 ^ 32" and e = e and consumed = consumed]
  obtain q h' npc' ms where q: "nd_parse_body malloc e h npc buf (length buf) consumed = Some (q, h', npc')"
      "extends e h h' ms (map (decode_entry (version npc)) (entries_of ?g (length ms) ?data))"
      "ends_done npc ?data consumed n ?pos ?g (length ms) q npc' \<or>
       ends_part npc ?data (length buf) consumed n ?g (nr_consumed npc mod 2 ^ 32) (length ms) q npc' \<or>
       ends_fail malloc h' npc ?data n ?g (nr_consumed npc mod 2 ^ 32) (length ms) npc'"
      "ctx_list h' npc' (as @ ms)" "length (cur_e npc') = 34"
    unfolding nd_parse_body_entries [OF v] n(1) by blast
  have "\<not> ends_fail malloc h' npc ?data n ?g (nr_consumed npc mod 2 ^ 32) (length ms) npc'"
    using malloc extends_finite [OF q(2) fin] unfolding ends_fail_def malloc_total_def by fastforce
  moreover have "\<not> ends_part npc ?data (length buf) consumed n ?g (nr_consumed npc mod 2 ^ 32) (length ms) q npc'"
  proof
    assume "ends_part npc ?data (length buf) consumed n ?g (nr_consumed npc mod 2 ^ 32) (length ms) q npc'"
    then have p: "length ms < n" "length ?data < (length ms + 1) * ?g" by (simp_all add: ends_part_def)
    from p(1) have "(length ms + 1) * ?g \<le> n * ?g" by (intro mult_le_mono1) simp
    with p(2) len(1) entry_data_length [OF round] show False by simp
  qed
  ultimately have d: "ends_done npc ?data consumed n ?pos ?g (length ms) q npc'" using q(3) by blast
  then have ms: "length ms = n" and npc': "npc' = npc\<lparr>cur_e := cur_e npc', peers := peers npc', tail := tail npc'\<rparr>"
    unfolding ends_done_def by blast+
  have "consumed + (n * ?g - ?pos) \<le> INT_MAX" using len by linarith
  with d ms have r: "q = int (consumed + (n * ?g - ?pos))" using to_int_small by (simp add: ends_done_def)
  obtain x y z where np: "npc' = npc\<lparr>cur_e := x, peers := y, tail := z\<rparr>" using npc' by blast
  then have "parser_ok h' npc' (as @ ms)"
    using q(4,5) ok by (simp add: parser_ok_def)
  with that q(1,2) r npc' show thesis unfolding data ms by blast
qed

text \<open>The fields that say how far the parser is.\<close>

definition at_entry :: "u32 \<Rightarrow> nat \<Rightarrow> nat \<Rightarrow> nat \<Rightarrow> nd_parse_ctx \<Rightarrow> bool" where
  "at_entry ver n k pos npc \<longleftrightarrow> header_parsed npc \<and> version npc = ver \<and> nr_total npc = n \<and>
     nr_consumed npc = k \<and> cur_e_pos npc = pos \<and> error npc = 0"

lemma nd_parse_proc_completes:
  assumes malloc: "malloc_total malloc" and fin: "finite (dom h)" and ok: "parser_ok h npc as"
    and hd: "header_done e npc buf c npc1" "at_entry ver n k pos npc1" and v: "ver = 0 \<or> ver = 2" and k: "k < n" "n < 2 ^ 32"
    and len: "(n - k) * goal_of ver \<le> pos + (length buf - c)" "length buf \<le> INT_MAX" and err: "error npc = 0" and ne: "buf \<noteq> []"
  obtains h' npc' ms where
    "nd_parse_proc malloc e h npc buf (length buf) = Some (int (c + ((n - k) * goal_of ver - pos)), h', npc')"
    "parser_ok h' npc' (as @ ms)" "at_entry ver n k pos npc'"
    "extends e h h' ms (map (decode_entry ver) (entries_of (goal_of ver) (n - k) (pending npc1 (drop c buf))))"
proof -
  have l64: "length buf < 2 ^ 64" using len(2) unfolding INT_MAX_def by simp
  note h1 = header_done_ok [OF hd(1) ok l64]
  have a: "version npc1 = ver" "nr_total npc1 = n" "nr_consumed npc1 = k" "cur_e_pos npc1 = pos" "error npc1 = 0"
    using hd(2) by (simp_all add: at_entry_def)
  have v1: "version npc1 = 0 \<or> version npc1 = 2" using v a(1) by simp
  have left: "n - k = nr_total npc1 mod 2 ^ 32 - nr_consumed npc1 mod 2 ^ 32" "0 < n - k" using a k by simp_all
  have l1: "(n - k) * goal_of (version npc1) \<le> cur_e_pos npc1 + length (drop c buf)" "c + length (drop c buf) \<le> INT_MAX"
    using len a h1(3) by simp_all
  from nd_body_completes [OF malloc fin h1(1,2) v1 left l1, of e] obtain h' npc' ms where b:
    "nd_parse_body malloc e h npc1 (drop c buf) (length (drop c buf)) c = Some (int (c + ((n - k) * goal_of ver - pos)), h', npc')"
    "parser_ok h' npc' (as @ ms)" "npc' = npc1\<lparr>cur_e := cur_e npc', peers := peers npc', tail := tail npc'\<rparr>"
    "extends e h h' ms (map (decode_entry ver) (entries_of (goal_of ver) (n - k) (pending npc1 (drop c buf))))"
    unfolding a(1,4) by blast
  obtain x y z where np: "npc' = npc1\<lparr>cur_e := x, peers := y, tail := z\<rparr>" using b(3) by blast
  have "at_entry ver n k pos npc'" using hd(2) unfolding np by (simp add: at_entry_def)
  moreover have "\<not> error npc < 0" using err by simp
  note nd_parse_proc_done [OF hd(1) ok l64 this ne, of malloc]
  ultimately show thesis using that b by simp
qed

subsection \<open>The rest of a file and bytes behind it\<close>

lemma file_fields:
  assumes "file_ok ver es"
  shows "ver = 0 \<Longrightarrow> le32 (nd_file ver es @ x) \<noteq> 0 \<and> unat (le32 (nd_file ver es @ x)) = length es"
    and "ver = 2 \<Longrightarrow> le32 (nd_file ver es @ x) = 0 \<and> le32 (drop 4 (nd_file ver es @ x)) = 2 \<and>
      unat (le32 (drop 8 (nd_file ver es @ x))) = length es"
proof -
  have n: "ver = 0 \<and> 0 < length es \<or> ver = 2" "length es < 2 ^ 32"
    using assms by (auto simp: file_ok_def)
  have f: "file_header ver (length es) @ concat es @ x = nd_file ver es @ x" by (simp add: nd_file_def)
  note hf = header_fields [OF n, of "concat es @ x", unfolded f]
  show "ver = 0 \<Longrightarrow> le32 (nd_file ver es @ x) \<noteq> 0 \<and> unat (le32 (nd_file ver es @ x)) = length es"
    "ver = 2 \<Longrightarrow> le32 (nd_file ver es @ x) = 0 \<and> le32 (drop 4 (nd_file ver es @ x)) = 2 \<and>
      unat (le32 (drop 8 (nd_file ver es @ x))) = length es"
    using hf by blast+
qed

lemma nd_header_completed:
  assumes fok: "file_ok ver es" and npc: "header_ok npc" "in_header npc d" "cur_e_pos npc = 0" "error npc = 0"
    and whole: "nd_file ver es = d @ rest" "length d < header_len ver" and len: "length (rest @ x) < 2 ^ 64"
  obtains npc1 where "header_done e npc (rest @ x) (header_len ver - length d) npc1" "at_entry ver (length es) 0 0 npc1"
proof -
  have hdr: "\<not> header_parsed npc" "head_pos npc = length d" "take (length d) (head npc) = d" "nr_consumed npc = 0"
    using npc(2) by (simp_all add: in_header_def)
  have data: "header_data npc (rest @ x) (length (rest @ x)) = nd_file ver es @ x"
    using hdr whole(1) by (simp add: header_data_def)
  have H: "header_len ver \<le> length (nd_file ver es @ x)" by (simp add: nd_file_def length_file_header)
  have v: "ver = 0 \<or> ver = 2" using fok by (auto simp: file_ok_def)
  note ff = file_fields [OF fok, of x]
  from npc(1) order.refl len show thesis
  proof (cases rule: header_parser_cases [where e = e])
    case (more c)
    with ff v H show thesis unfolding data by (auto simp: header_len_def split: if_splits)
  next
    case (v0 c)
    note v0 = v0 [unfolded data hdr(2)]
    with ff(2) v have ver: "ver = 0" by auto
    with v0(5) hdr npc(3,4) ff(1) show thesis
      by (intro that [of "npc\<lparr>head := c, head_pos := 4, version := 0, nr_total := unat (le32 (nd_file ver es @ x)), header_parsed := True\<rparr>"])
         (simp_all add: header_done_def at_entry_def header_len_def)
  next
    case (full c)
    note full = full [unfolded data hdr(2)]
    with ff(1) v have ver: "ver = 2" by auto
    with full(4) hdr npc(3,4) ff(2) show thesis
      by (intro that [of "npc\<lparr>head := c, head_pos := 12, version := le32 (drop 4 (nd_file ver es @ x)),
          nr_total := unat (le32 (drop 8 (nd_file ver es @ x))), header_parsed := True\<rparr>"])
         (simp_all add: header_done_def at_entry_def header_len_def)
  qed
qed

text \<open>After any part of a file: where the parser stands when the rest comes.\<close>

lemma nd_rel_rest:
  assumes rel: "nd_rel malloc e ver es h0 (h, npc) d" and whole: "nd_file ver es = d @ rest" "rest \<noteq> []" "es \<noteq> []"
    and len: "length (rest @ x) < 2 ^ 64"
  obtains c npc1 ns where "header_done e npc (rest @ x) c npc1" "parser_ok h npc ns" "error npc = 0"
    "extends e h0 h ns (map (decode_entry ver) (take (complete ver d) es))" "complete ver d < length es"
    "at_entry ver (length es) (complete ver d) ((length d - header_len ver) mod goal_of ver) npc1"
    "pending npc1 (drop c (rest @ x)) = concat (drop (complete ver d) es) @ x" "c \<le> length rest"
proof -
  let ?H = "header_len ver" and ?g = "goal_of ver" and ?k = "complete ver d"
  have fok: "file_ok ver es" and err: "error npc = 0" using rel by (simp_all add: nd_rel_def)
  have es: "list_all (\<lambda>en. length en = ?g) es" using fok by (auto simp: file_ok_def)
  note total = length_concat_entries [OF es]
  obtain ns where ns: "parser_ok h npc ns" "length ns = ?k" "extends e h0 h ns (map (decode_entry ver) (take ?k es))"
    by (rule nd_rel_prefix [OF rel whole(1)]) simp
  show thesis
  proof (cases "length d < ?H")
    case True
    with rel have npc: "in_header npc d" "header_ok npc" "cur_e_pos npc = 0"
      by (auto simp: nd_rel_def parser_ok_def in_header_def)
    obtain npc1 where npc1: "header_done e npc (rest @ x) (?H - length d) npc1" "at_entry ver (length es) 0 0 npc1"
      by (rule nd_header_completed [OF fok npc(2,1,3) err whole(1) True len])
    have k: "?k = 0" using True by (simp add: complete_def)
    have "drop (?H - length d) rest = concat es"
      using arg_cong [OF whole(1), of "drop ?H"] True by (simp add: nd_file_def length_file_header)
    moreover have "?H - length d \<le> length rest"
      using arg_cong [OF whole(1), of length] by (simp add: nd_file_def length_file_header)
    ultimately show thesis using npc1 k ns err True whole(3)
      by (intro that [of "?H - length d" npc1 ns]) (simp_all add: at_entry_def)
  next
    case False
    let ?b = "drop ?H d"
    have whole': "concat es = ?b @ rest" using nd_file_body [OF whole(1)] False by simp
    from rel False obtain ns' where b: "in_body ver es npc (length ns') ?b" "parser_ok h npc ns'"
      unfolding nd_rel_def by auto
    have "peer_list h (peers npc) ns'" "peer_list h (peers npc) ns" using b(2) ns(1) by (simp_all add: parser_ok_def ctx_list_def)
    then have "ns' = ns" by (rule peer_list_unique)
    with b(1) ns(2) have body: "in_body ver es npc ?k ?b" by simp
    have lt: "?k < length es"
    proof (rule ccontr)
      assume "\<not> ?k < length es"
      with body have "length es * ?g \<le> length ?b" unfolding in_body_def by (metis le_neq_implies_less)
      with arg_cong [OF whole', of length] total whole(2) show False by simp
    qed
    have mod: "length ?b - ?k * ?g = (length d - ?H) mod ?g"
      by (simp add: complete_def minus_div_mult_eq_mod)
    with body lt err have "at_entry ver (length es) ?k ((length d - ?H) mod ?g) npc"
      by (auto simp: in_body_def at_entry_def)
    moreover have "pending npc (rest @ x) = concat (drop ?k es) @ x"
    proof -
      have "take (cur_e_pos npc) (cur_e npc) = drop (?k * ?g) ?b" "?k * ?g \<le> length ?b"
        using body lt unfolding in_body_def by blast+
      with drop_concat_entries [OF es, of ?k] whole' show ?thesis by simp
    qed
    moreover have "header_parsed npc" using body by (simp add: in_body_def)
    ultimately show thesis using ns err lt by (intro that [of 0 npc ns]) (simp_all add: header_done_def)
  qed
qed

subsection \<open>A call in which \<open>malloc\<close> fails\<close>

text \<open>An allocator that has room for \<open>n\<close> objects.\<close>

definition malloc_limit :: "malloc \<Rightarrow> nat \<Rightarrow> int \<Rightarrow> bool" where
  "malloc_limit malloc n errno \<longleftrightarrow> malloc_ok malloc \<and>
     (\<forall>h. finite (dom h) \<longrightarrow> (if card (dom h) < n then \<exists>a. malloc h = Inr a else malloc h = Inl errno))"

definition limit_malloc :: "nat \<Rightarrow> malloc" where
  "limit_malloc n h = (if finite (dom h) \<and> card (dom h) < n then bump_malloc h else Inl 12)"

lemma limit_malloc: "malloc_limit (limit_malloc n) n 12"
  using bump_malloc_total
  by (auto simp: malloc_limit_def limit_malloc_def malloc_total_def malloc_ok_def split: sum.splits)

lemma nd_entries_fails:
  assumes "malloc_limit malloc n errno"
  shows "round_ok h npc as buf len pos \<Longrightarrow> finite (dom h) \<Longrightarrow> card (dom h) + k = n \<Longrightarrow> nr + k < tot \<Longrightarrow>
    (k + 1) * goal_of (version npc) \<le> pos + len \<Longrightarrow>
    \<exists>h' npc' ms.
      nd_entries malloc e (goal_of (version npc)) tot h npc buf len consumed nr pos =
        Some (to_int (consumed + (k * goal_of (version npc) - pos)), h', npc') \<and>
      ctx_list h' npc' (as @ ms) \<and> length (cur_e npc') = 34 \<and> length ms = k \<and>
      extends e h h' ms (map (decode_entry (version npc)) (entries_of (goal_of (version npc)) k (entry_data npc pos buf len))) \<and>
      npc' = npc\<lparr>cur_e := cur_e npc', peers := peers npc', tail := tail npc', error := - errno, nr_consumed := nr + k,
        cur_e_pos := 0\<rparr>"
proof (induction k arbitrary: h npc as buf len consumed nr pos)
  case 0
  from 0(2,3) assms have fail: "malloc h = Inl errno" by (auto simp: malloc_limit_def split: if_splits)
  have mok: "malloc_ok malloc" and nr: "nr < tot" using assms 0(4) by (simp_all add: malloc_limit_def)
  from 0(1) mok nr show ?case
  proof (cases rule: nd_entries_round [where consumed = consumed and e = e])
    case (part c)
    with 0(1,5) show ?thesis by (simp add: entry_data_length)
  next
    case (fail c errno')
    with \<open>malloc h = Inl errno\<close> 0(1) show ?thesis
      by (intro exI [of _ h] exI [of _ "npc\<lparr>cur_e := c, error := - errno, nr_consumed := nr, cur_e_pos := 0\<rparr>"] exI [of _ "[]"])
         (simp add: extends_refl round_ok_def ctx_list_def)
  next
    case (filled a h1 npc1 c)
    with fail show ?thesis by simp
  qed
next
  case (Suc k)
  let ?g = "goal_of (version npc)" and ?data = "entry_data npc pos buf len"
  have ok: "\<exists>a. malloc h = Inr a" using Suc.prems(2,3) assms by (auto simp: malloc_limit_def)
  have mok: "malloc_ok malloc" and nr: "nr < tot" using assms Suc.prems(4) by (simp_all add: malloc_limit_def)
  have pos: "pos < ?g" using Suc.prems(1) by (simp add: round_ok_def)
  from Suc.prems(1) mok nr show ?case
  proof (cases rule: nd_entries_round [where consumed = consumed and e = e])
    case (part c)
    with Suc.prems(1,5) show ?thesis by (simp add: entry_data_length)
  next
    case (fail c errno')
    with ok show ?thesis by simp
  next
    case (filled a h1 npc1 c)
    obtain p t where n1: "npc1 = npc\<lparr>cur_e := c, peers := p, tail := t\<rparr>" using filled(4) by blast
    have v: "version npc1 = version npc" unfolding n1 by simp
    have dom: "dom h1 = insert a (dom h)" "a \<notin> dom h" using filled(3) by (auto simp: extends_def)
    have l: "(k + 1) * ?g \<le> 0 + (len - (?g - pos))" using Suc.prems(5) pos by simp
    have "finite (dom h1)" "card (dom h1) + k = n" "nr + 1 + k < tot"
      using Suc.prems(2-4) dom by simp_all
    from Suc.IH [OF filled(5) this, unfolded v filled(6), OF l] obtain h' npc' ms where
      i: "nd_entries malloc e ?g tot h1 npc1 (drop (?g - pos) buf) (len - (?g - pos)) (consumed + (?g - pos)) (nr + 1) 0 =
           Some (to_int (consumed + (?g - pos) + (k * ?g - 0)), h', npc')"
        "ctx_list h' npc' ((as @ [a]) @ ms)" "length (cur_e npc') = 34" "length ms = k"
        "extends e h1 h' ms (map (decode_entry (version npc)) (entries_of ?g k (drop ?g ?data)))"
        "npc' = npc1\<lparr>cur_e := cur_e npc', peers := peers npc', tail := tail npc', error := - errno, nr_consumed := nr + 1 + k,
           cur_e_pos := 0\<rparr>" by blast
    have "extends e h h' (a # ms) (map (decode_entry (version npc)) (entries_of ?g (Suc k) ?data))"
      using extends_trans [OF filled(3) i(5)] by simp
    moreover have eq: "consumed + (?g - pos) + (k * ?g - 0) = consumed + (Suc k * ?g - pos)" using pos by simp
    moreover have "npc' = npc\<lparr>cur_e := cur_e npc', peers := peers npc', tail := tail npc', error := - errno,
        nr_consumed := nr + Suc k, cur_e_pos := 0\<rparr>" using i(6) unfolding n1 by simp
    moreover have "nd_entries malloc e ?g tot h npc buf len consumed nr pos = Some (to_int (consumed + (Suc k * ?g - pos)), h', npc')"
      unfolding eq [symmetric] filled(7) by (rule i(1))
    moreover have "ctx_list h' npc' (as @ (a # ms))" "length (a # ms) = Suc k" using i(2,4) by simp_all
    ultimately show ?thesis using i(3) by blast
  qed
qed

lemma nd_parse_proc_fails:
  assumes malloc: "malloc_limit malloc (card (dom h) + k) errno" and fin: "finite (dom h)" and ok: "parser_ok h npc as"
    and hd: "header_done e npc buf c npc1" and v: "version npc1 = 0 \<or> version npc1 = 2"
    and nr: "nr_consumed npc1 mod 2 ^ 32 + k < nr_total npc1 mod 2 ^ 32"
    and len: "(k + 1) * goal_of (version npc1) \<le> cur_e_pos npc1 + (length buf - c)" "length buf \<le> INT_MAX"
    and err: "\<not> error npc < 0" and ne: "buf \<noteq> []"
  obtains h' npc' ms where
    "nd_parse_proc malloc e h npc buf (length buf) = Some (int (c + (k * goal_of (version npc1) - cur_e_pos npc1)), h', npc')"
    "ctx_list h' npc' (as @ ms)" "length ms = k" "error npc' = - errno" "nr_consumed npc' = nr_consumed npc1 mod 2 ^ 32 + k"
    "extends e h h' ms (map (decode_entry (version npc1)) (entries_of (goal_of (version npc1)) k (pending npc1 (drop c buf))))"
proof -
  let ?g = "goal_of (version npc1)" and ?pos = "cur_e_pos npc1" and ?b = "drop c buf"
  have l64: "length buf < 2 ^ 64" using len(2) unfolding INT_MAX_def by simp
  note h1 = header_done_ok [OF hd ok l64]
  have round: "round_ok h npc1 as ?b (length ?b) ?pos"
    using parser_ok_round [OF h1(1) order.refl, of ?b] l64 by simp
  have l: "(k + 1) * ?g \<le> ?pos + length ?b" using len(1) by simp
  from nd_entries_fails [OF malloc round fin refl nr l, of e c] obtain h' npc' ms where b:
    "nd_parse_body malloc e h npc1 ?b (length ?b) c = Some (to_int (c + (k * ?g - ?pos)), h', npc')"
    "ctx_list h' npc' (as @ ms)" "length ms = k"
    "extends e h h' ms (map (decode_entry (version npc1)) (entries_of ?g k (entry_data npc1 ?pos ?b (length ?b))))"
    "npc' = npc1\<lparr>cur_e := cur_e npc', peers := peers npc', tail := tail npc', error := - errno,
       nr_consumed := nr_consumed npc1 mod 2 ^ 32 + k, cur_e_pos := 0\<rparr>"
    unfolding nd_parse_body_entries [OF v] by blast
  obtain x y z where np: "npc' = npc1\<lparr>cur_e := x, peers := y, tail := z, error := - errno,
       nr_consumed := nr_consumed npc1 mod 2 ^ 32 + k, cur_e_pos := 0\<rparr>" using b(5) by blast
  have "c + (k * ?g - ?pos) \<le> INT_MAX" using len h1(3) by simp
  then have "to_int (c + (k * ?g - ?pos)) = int (c + (k * ?g - ?pos))" by (rule to_int_small)
  moreover have "entry_data npc1 ?pos ?b (length ?b) = pending npc1 ?b" by (simp add: entry_data_def)
  ultimately show thesis
    using that [of h' npc' ms] b(1-4) nd_parse_proc_done [OF hd ok l64 err ne, of malloc] np by simp
qed

subsection \<open>A header of another version, in any chunks\<close>

text \<open>The state after \<open>d\<close>, less than a header.\<close>

definition header_rel :: "heap \<Rightarrow> bytes \<Rightarrow> heap \<times> nd_parse_ctx \<Rightarrow> bytes \<Rightarrow> bool" where
  "header_rel h0 whole s d \<longleftrightarrow> length whole < 12 \<and> (4 \<le> length whole \<longrightarrow> le32 whole = 0) \<and> fst s = h0 \<and>
     header_ok (snd s) \<and> in_header (snd s) d \<and> error (snd s) = 0"

lemma header_rel_step:
  assumes rel: "header_rel h0 whole s d" and whole: "whole = d @ c @ r" and c: "chunk_ok c"
  shows "\<exists>s'. nd_step malloc e s c = Some (int (length c), s') \<and> header_rel h0 whole s' (d @ c)"
proof -
  obtain h npc where s: "s = (h, npc)" by (cases s)
  from rel have g: "length whole < 12" "4 \<le> length whole \<longrightarrow> le32 whole = 0" "h = h0" "header_ok npc" "error npc = 0"
      "\<not> header_parsed npc" "head_pos npc = length d" "take (length d) (head npc) = d" "nr_consumed npc = 0"
    by (simp_all add: header_rel_def in_header_def s)
  have len: "length c \<noteq> 0" "length c \<le> INT_MAX" "length c < 2 ^ 64"
    using c by (auto simp: chunk_ok_def INT_MAX_def)
  have data: "header_data npc c (length c) = d @ c" using g(7,8) by (simp add: header_data_def)
  have zero: "le32 (d @ c) = 0" if "4 \<le> length (d @ c)"
    using that g(2) unfolding whole append_assoc [symmetric] by (simp add: le32_def)
  from g(4) order.refl len(3) show ?thesis
  proof (cases rule: header_parser_cases [where e = e])
    case (more x)
    note more = more [unfolded data]
    have "header_ok (npc\<lparr>head := x, head_pos := length (d @ c)\<rparr>)"
      by (rule header_ok_more [OF more(3,4,1,2)])
    with more g have "header_rel h0 whole (h, npc\<lparr>head := x, head_pos := length (d @ c)\<rparr>) (d @ c)"
      by (simp add: header_rel_def in_header_def)
    with more(5) g(5,6) len s to_int_small [OF len(2)] show ?thesis
      by (simp add: nd_step_def nd_parse_proc_def)
  next
    case (v0 x)
    with zero show ?thesis unfolding data by blast
  next
    case (full x)
    with g(1) whole show ?thesis unfolding data by simp
  qed
qed

interpretation header_chunks: incremental "nd_step malloc e" "header_rel h0 whole" whole for malloc e h0 whole
  by unfold_locales (rule header_rel_step)

end
