(* ===== verification/Nodes_Properties.thy ===== *)
theory Nodes_Properties
  imports Reader Nodes_Calls
begin

text \<open>
  The properties of the \<open>nodes.dat\<close> parser and of the programs that read such files with it.
\<close>

text \<open>A fresh context, and two entries of a file: one of version 2, one of version 0.\<close>

definition npc_blank :: nd_parse_ctx where
  "npc_blank = \<lparr>head_pos = 0, header_parsed = False, head = replicate 12 0, version = 0, peers = None, tail = Tail_peers,
     nr_consumed = 0, nr_total = 0, error = 0, cur_e = replicate 34 0, cur_e_pos = 0\<rparr>"

definition entry_example :: bytes where
  "entry_example = replicate 16 7 @ [10, 0, 0, 1] @ [54, 18] @ [64, 18] @ [8] @ replicate 8 5 @ [1]"

definition header_v1 :: bytes where
  "header_v1 = [0, 0, 0, 0, 1, 0, 0, 0, 1, 0, 0, 0]"

definition getname_example :: getnameinfo where
  "getname_example sa =
     Some (bytes_of_u32 Big (s_addr sa), [of_nat (net16 (bytes_of_u16 Big (sin_port sa)))])"

lemma entry_example_ok: "file_ok 2 [entry_example]" "file_ok 0 [take 25 entry_example]"
  by (simp_all add: file_ok_def goal_of_def entry_example_def)

lemma npc_blank_ok: "length (head npc_blank) = 12" "length (cur_e npc_blank) = 34"
  by (simp_all add: npc_blank_def)

lemma length_nd_file: "file_ok ver es \<Longrightarrow> length (nd_file ver es) = header_len ver + length es * goal_of ver"
  using length_concat_entries by (auto simp: nd_file_def length_file_header file_ok_def)

subsection \<open>Parsing\<close>

text \<open>C2. A \<open>nodes.dat\<close> file of version 0 or 2, cut into chunks anyhow, gives the contacts it encodes: every call
  of \<open>nd_parse_proc\<close> consumes its whole chunk, and \<open>nd_parse_get_peers\<close> then returns the list of new
  peers, in the order of the file, on little and big endian hosts.\<close>

theorem nd_parse_decodes_chunks:
  assumes "malloc_total malloc" "file_ok ver es" "finite (dom h0)" "length (head npc) = 12" "length (cur_e npc) = 34"
    "concat cs = nd_file ver es" "list_all chunk_ok cs"
  shows "\<exists>h npc' ns. feed (nd_step malloc e) (h0, snd (nd_parse_init npc)) cs = Some (map (\<lambda>c. int (length c)) cs, (h, npc')) \<and>
    peer_list h (fst (nd_parse_get_peers npc')) ns \<and> contacts e h ns = map Some (map (decode_entry ver) es) \<and>
    distinct ns \<and> set ns \<inter> dom h0 = {} \<and> dom h = dom h0 \<union> set ns"
proof -
  from nd.feed_rel [OF nd_rel_init [OF assms(1-5), of e], of cs "[]"] assms(6,7)
  obtain s where s: "feed (nd_step malloc e) (h0, snd (nd_parse_init npc)) cs = Some (map (\<lambda>c. int (length c)) cs, s)"
      "nd_rel malloc e ver es h0 s (nd_file ver es)" by auto
  obtain ns where "parser_ok (fst s) (snd s) ns" "extends e h0 (fst s) ns (map (decode_entry ver) es)"
    using nd_rel_whole [OF s(2)] by blast
  with s(1) show ?thesis
    by (intro exI [of _ "fst s"] exI [of _ "snd s"] exI [of _ ns])
       (auto simp: parser_ok_def ctx_list_def extends_def nd_parse_get_peers_def)
qed

theorem nd_parse_decodes_chunks_witness:
  "\<exists>h npc' ns. feed (nd_step bump_malloc Big) (Map.empty, snd (nd_parse_init npc_blank))
      [take 7 (nd_file 2 [entry_example]), drop 7 (nd_file 2 [entry_example])] = Some ([7, 39], (h, npc')) \<and>
    peer_list h (fst (nd_parse_get_peers npc')) ns \<and> contacts Big h ns = [Some (decode_entry 2 entry_example)]"
proof -
  let ?f = "nd_file 2 [entry_example]"
  have l: "length ?f = 46" using length_nd_file [OF entry_example_ok(1)] by (simp add: header_len_def goal_of_def)
  then have "list_all chunk_ok [take 7 ?f, drop 7 ?f]" "concat [take 7 ?f, drop 7 ?f] = ?f"
    by (auto simp: chunk_ok_def INT_MAX_def)
  with nd_parse_decodes_chunks [OF bump_malloc_total entry_example_ok(1), of Map.empty npc_blank "[take 7 ?f, drop 7 ?f]" Big]
  show ?thesis using l npc_blank_ok by auto
qed

text \<open>C6. Memory safety and the invariant, for any bytes: from a context \<open>nd_parse_init\<close> or earlier calls
  made, \<open>nd_parse_proc\<close> on any buffer accesses nothing outside the buffer, the context and its peers,
  whatever \<open>malloc\<close> answers; it keeps the list of peers well formed and only appends to it.\<close>

theorem nd_parse_proc_memory_safe:
  assumes "malloc_ok malloc" "parser_ok h npc as" "len \<le> length buf" "len < 2 ^ 64"
  shows "\<exists>r h' npc' ns cs. nd_parse_proc malloc e h npc buf len = Some (r, h', npc') \<and>
    parser_ok h' npc' (as @ ns) \<and> extends e h h' ns cs"
  using nd_parse_proc_safe [OF assms, of e] by blast

theorem nd_parse_proc_memory_safe_witness:
  "\<exists>r h' npc' ns cs. nd_parse_proc (\<lambda>h. Inl 12) Little Map.empty (snd (nd_parse_init npc_blank)) [1, 2, 3] 3 = Some (r, h', npc') \<and>
    parser_ok h' npc' ([] @ ns) \<and> extends Little Map.empty h' ns cs"
  by (rule nd_parse_proc_memory_safe) (simp_all add: malloc_ok_def parser_ok_init npc_blank_ok)

text \<open>C30. A file that starts with zero and says another version than 0 and 2 is refused, however its header is cut into
  chunks: the calls before consume their chunks, the call that completes the header returns \<open>-EINVAL\<close>, nothing is
  allocated, and every further call returns \<open>-EINVAL\<close> again.\<close>

theorem nd_parse_rejects_version:
  assumes "length (head npc) = 12" "length (cur_e npc) = 34" "list_all chunk_ok cs" "length (concat cs) < 12"
    "12 \<le> length (concat cs @ buf)" "length buf < 2 ^ 64"
    "le32 (concat cs @ buf) = 0" "le32 (drop 4 (concat cs @ buf)) \<noteq> 0" "le32 (drop 4 (concat cs @ buf)) \<noteq> 2"
  shows "\<exists>npc1 npc'. feed (nd_step malloc e) (h, snd (nd_parse_init npc)) cs = Some (map (\<lambda>c. int (length c)) cs, (h, npc1)) \<and>
    nd_parse_proc malloc e h npc1 buf (length buf) = Some (- EINVAL, h, npc') \<and>
    (\<forall>malloc' h' buf' len'. nd_parse_proc malloc' e h' npc' buf' len' = Some (- EINVAL, h', npc'))"
proof -
  let ?d = "concat cs"
  have zero: "4 \<le> length ?d \<longrightarrow> le32 ?d = 0" using assms(7) by (auto simp: le32_def)
  have "header_rel h ?d (h, snd (nd_parse_init npc)) []"
    using assms(1,4) zero by (simp add: header_rel_def in_header_def nd_parse_init_def header_ok_def)
  from header_chunks.feed_rel [OF this, of cs "[]" malloc e] assms(3) obtain h1 npc1 where
    feed: "feed (nd_step malloc e) (h, snd (nd_parse_init npc)) cs = Some (map (\<lambda>c. int (length c)) cs, (h1, npc1))"
    and "header_rel h ?d (h1, npc1) ?d" by auto
  then have npc1: "h1 = h" "header_ok npc1" "head_pos npc1 = length ?d" "take (length ?d) (head npc1) = ?d"
      "\<not> header_parsed npc1" "\<not> error npc1 < 0"
    by (simp_all add: header_rel_def in_header_def)
  have data: "header_data npc1 buf (length buf) = ?d @ buf" by (simp add: header_data_def npc1(3,4))
  have nz: "length buf \<noteq> 0" using assms(4,5) by auto
  from npc1(2) order.refl assms(6) obtain k npc2 where n: "header_parser e npc1 buf (length buf) = Some (k, npc2)"
      "header_parsed npc2" "version npc2 \<noteq> 0" "version npc2 \<noteq> 2"
  proof (cases rule: header_parser_cases [where e = e])
    case (more c)
    with assms(5) show thesis unfolding data by simp
  next
    case (v0 c)
    with assms(7) show thesis unfolding data by simp
  next
    case (full c)
    with assms(8,9) that show thesis unfolding data by fastforce
  qed
  from nd_parse_proc_header [OF npc1(6) nz npc1(5) n(1,2), of malloc h] nd_parse_body_EINVAL [OF n(3,4)]
  have "nd_parse_proc malloc e h npc1 buf (length buf) = Some (- EINVAL, h, npc2\<lparr>error := - EINVAL\<rparr>)" by simp
  with feed npc1(1) show ?thesis
    by (intro exI [of _ npc1] exI [of _ "npc2\<lparr>error := - EINVAL\<rparr>"]) (simp add: nd_parse_proc_def EINVAL_def)
qed

theorem nd_parse_rejects_version_witness:
  "\<exists>npc1 npc'. feed (nd_step bump_malloc Little) (Map.empty, snd (nd_parse_init npc_blank)) [take 3 header_v1, take 4 (drop 3 header_v1)] =
      Some ([3, 4], (Map.empty, npc1)) \<and>
    nd_parse_proc bump_malloc Little Map.empty npc1 (drop 7 header_v1) (length (drop 7 header_v1)) = Some (- EINVAL, Map.empty, npc')"
proof -
  let ?cs = "[take 3 header_v1, take 4 (drop 3 header_v1)]"
  have a: "list_all chunk_ok ?cs" "length (concat ?cs) < 12" "map (\<lambda>c. int (length c)) ?cs = [3, 4]"
    "length (drop 7 header_v1) < 2 ^ 64" "concat ?cs @ drop 7 header_v1 = header_v1"
    by (simp_all add: header_v1_def chunk_ok_def INT_MAX_def)
  have b: "12 \<le> length header_v1" "le32 header_v1 = 0" "le32 (drop 4 header_v1) = 1"
    by (simp_all add: header_v1_def le32_def u32_of_def)
  from nd_parse_rejects_version [OF npc_blank_ok a(1,2) _ a(4), unfolded a(5), of bump_malloc Little Map.empty] a(3) b
  show ?thesis by auto
qed

text \<open>C31. A failed allocation, in any call: when \<open>malloc\<close> has room for \<open>k\<close> more peers and the call, which may also
  complete the header (\<open>c\<close> bytes of it), holds the bytes of \<open>k + 1\<close> entries, it lists the \<open>k\<close> peers and returns
  not an error but the bytes it consumed before the entry that failed (0 if that is the first one); every later
  call returns the negated \<open>errno\<close>.\<close>

theorem nd_parse_proc_out_of_memory:
  assumes "malloc_limit malloc (card (dom h) + k) errno" "finite (dom h)" "0 < errno" "parser_ok h npc as" "\<not> error npc < 0"
    "header_done e npc buf c npc1" "version npc1 = 0 \<or> version npc1 = 2"
    "nr_consumed npc1 mod 2 ^ 32 + k < nr_total npc1 mod 2 ^ 32"
    "(k + 1) * goal_of (version npc1) \<le> cur_e_pos npc1 + (length buf - c)" "length buf \<le> INT_MAX" "buf \<noteq> []"
  shows "\<exists>h' npc' ms. nd_parse_proc malloc e h npc buf (length buf) =
      Some (int (c + (k * goal_of (version npc1) - cur_e_pos npc1)), h', npc') \<and>
    length ms = k \<and> peer_list h' (peers npc') (as @ ms) \<and> dom h' = dom h \<union> set ms \<and>
    contacts e h' ms = map Some (map (decode_entry (version npc1))
      (entries_of (goal_of (version npc1)) k (take (cur_e_pos npc1) (cur_e npc1) @ drop c buf))) \<and>
    (\<forall>malloc' h' buf' len'. nd_parse_proc malloc' e h' npc' buf' len' = Some (- errno, h', npc'))"
proof -
  obtain h' npc' ms where f:
    "nd_parse_proc malloc e h npc buf (length buf) = Some (int (c + (k * goal_of (version npc1) - cur_e_pos npc1)), h', npc')"
    "ctx_list h' npc' (as @ ms)" "length ms = k" "error npc' = - errno"
    "extends e h h' ms (map (decode_entry (version npc1)) (entries_of (goal_of (version npc1)) k (pending npc1 (drop c buf))))"
    by (rule nd_parse_proc_fails [OF assms(1,2,4,6-10,5,11)])
  from f(4) assms(3) have "nd_parse_proc malloc' e h'' npc' buf' len' = Some (- errno, h'', npc')" for malloc' h'' buf' len'
    by (simp add: nd_parse_proc_def)
  with f(1-3,5) show ?thesis
    by (intro exI [of _ h'] exI [of _ npc'] exI [of _ ms]) (simp add: ctx_list_def extends_def)
qed

text \<open>The second of two entries finds no memory: the first one's 34 bytes are reported, and its peer is listed.\<close>

theorem nd_parse_proc_out_of_memory_witness:
  "\<exists>h' npc' a. nd_parse_proc (limit_malloc 1) Little Map.empty (npc_blank\<lparr>header_parsed := True, version := 2, nr_total := 2\<rparr>)
      (entry_example @ entry_example) (length (entry_example @ entry_example)) = Some (34, h', npc') \<and>
    peer_list h' (peers npc') [a] \<and> contacts Little h' [a] = [Some (decode_entry 2 entry_example)] \<and>
    nd_parse_proc (limit_malloc 1) Little h' npc' [] 0 = Some (- 12, h', npc')"
proof -
  let ?npc = "npc_blank\<lparr>header_parsed := True, version := 2, nr_total := 2\<rparr>" and ?buf = "entry_example @ entry_example"
  have ok: "parser_ok Map.empty ?npc []" by (simp add: parser_ok_def ctx_list_def npc_blank_def goal_of_def)
  have l: "malloc_limit (limit_malloc 1) (card (dom (Map.empty :: heap)) + 1) 12" using limit_malloc [of 1] by simp
  have hd: "header_done Little ?npc ?buf 0 ?npc" by (simp add: header_done_def)
  have en: "length entry_example = 34" by (simp add: entry_example_def)
  have b: "?buf \<noteq> []" using en by auto
  obtain h' npc' ms where p: "nd_parse_proc (limit_malloc 1) Little Map.empty ?npc ?buf (length ?buf) = Some (34, h', npc')"
      "length ms = 1" "peer_list h' (peers npc') ms" "contacts Little h' ms = [Some (decode_entry 2 entry_example)]"
      "\<forall>malloc' h' buf' len'. nd_parse_proc malloc' Little h' npc' buf' len' = Some (- 12, h', npc')"
    using nd_parse_proc_out_of_memory [OF l _ _ ok _ hd _ _ _ _ b] en by (auto simp: npc_blank_def goal_of_def INT_MAX_def)
  from p(2) obtain a where "ms = [a]" by (cases ms) auto
  with p show ?thesis by blast
qed



subsection \<open>Ownership\<close>

text \<open>C33. Ownership of the peers: \<open>nd_parse_get_peers\<close> hands over the whole list, once. Freeing the list and then
  destroying the context, or the other way round, frees every peer of the list and nothing else, and so does
  \<open>nd_parse_destroy\<close> alone when nobody took the list; freeing a list a second time is undefined.\<close>

theorem nd_parse_peers_freed_once:
  assumes "parser_ok h npc as" "nd_parse_get_peers npc = (p, npc1)"
  shows "let h' = h |` (- set as) in
    peer_list h p as \<and> distinct as \<and> fst (nd_parse_get_peers npc1) = None \<and>
    free_kad_peers h p = Some h' \<and> nd_parse_destroy h' npc1 = Some (h', npc1) \<and>
    nd_parse_destroy h npc1 = Some (h, npc1) \<and>
    map_option fst (nd_parse_destroy h npc) = Some h' \<and>
    (if as = [] then free_kad_peers h' p = Some h' else free_kad_peers h' p = None)"
proof -
  have l: "peer_list h (peers npc) as" "distinct as" using assms(1) by (simp_all add: parser_ok_def ctx_list_def)
  have p: "p = peers npc" using assms(2) by (simp add: nd_parse_get_peers_def)
  have "free_kad_peers (h |` (- set as)) p = (if as = [] then Some (h |` (- set as)) else None)"
    using l(1) unfolding p by (cases as) (simp_all add: free_kad_peers.simps restrict_map_def)
  with assms(2) l free_list [OF l] free_kad_peers_None show ?thesis
    by (auto simp: nd_parse_get_peers_def nd_parse_destroy_def Let_def)
qed

text \<open>A list of two peers, beside a third one that is not on it.\<close>

definition kp_example :: "ptr option \<Rightarrow> kad_peer" where
  "kp_example q = \<lparr>kp_peer = \<lparr>p_type = PT_KAD, p_next = q\<rparr>, kp_client_id = [], kp_kad_udp_key = [],
     kp_udp = \<lparr>sin_family = AF_INET, sin_port = 0, s_addr = 0\<rparr>, kp_tcp = \<lparr>sin_family = AF_INET, sin_port = 0, s_addr = 0\<rparr>,
     kp_verified = 0, kp_version = 0\<rparr>"

definition heap_example :: heap where
  "heap_example = [1 \<mapsto> kp_example (Some 2), 2 \<mapsto> kp_example None, 3 \<mapsto> kp_example None]"

theorem nd_parse_peers_freed_once_witness:
  "let npc = npc_blank\<lparr>header_parsed := True, peers := Some 1, tail := Tail_next 2\<rparr>; npc1 = snd (nd_parse_get_peers npc);
     h' = heap_example |` (- {1, 2}) in
   dom h' = {3} \<and> free_kad_peers heap_example (Some 1) = Some h' \<and> nd_parse_destroy h' npc1 = Some (h', npc1) \<and>
   free_kad_peers h' (Some 1) = None"
proof -
  let ?npc = "npc_blank\<lparr>header_parsed := True, peers := Some 1, tail := Tail_next 2\<rparr>"
  have "parser_ok heap_example ?npc [1, 2]"
    by (simp add: parser_ok_def ctx_list_def npc_blank_def goal_of_def heap_example_def kp_example_def)
  moreover have "nd_parse_get_peers ?npc = (Some 1, snd (nd_parse_get_peers ?npc))" by (simp add: nd_parse_get_peers_def)
  ultimately have "let h' = heap_example |` (- set [1, 2]) in free_kad_peers heap_example (Some 1) = Some h' \<and>
      nd_parse_destroy h' (snd (nd_parse_get_peers ?npc)) = Some (h', snd (nd_parse_get_peers ?npc)) \<and> free_kad_peers h' (Some 1) = None"
    using nd_parse_peers_freed_once [of heap_example ?npc "[1, 2]" "Some 1" "snd (nd_parse_get_peers ?npc)"]
    unfolding Let_def by simp
  moreover have "dom (heap_example |` (- {1, 2})) = {3}" by (auto simp: heap_example_def)
  ultimately show ?thesis unfolding Let_def by simp
qed

subsection \<open>The programs\<close>

text \<open>C23. \<open>nd_reader\<close> on a valid file, or on one that breaks off anywhere: it prints one line for each entry that is
  complete, in the order of the file, with the address and the TCP port. It exits with 0, or with 4 when no
  entry is complete, and has freed every peer; a file that was cut is not told apart from a whole one.\<close>

theorem nd_reader_prints_contacts:
  assumes "malloc_total malloc" "file_ok ver es" "finite (dom h0)" "length (head npc) = 12" "length (cur_e npc) = 34"
    "getname_ok e getname names" "nd_file ver es = d @ rest"
  shows "\<exists>h. nd_reader_main getname malloc e h0 npc (Some d) =
      Some (Some (if complete ver d = 0 then 4 else 0),
        concat (map (contact_line names) (map (decode_entry ver) (take (complete ver d) es))), h) \<and> dom h = dom h0"
proof -
  obtain h where "read_file (Some 0) getname malloc e h0 npc d =
      Some (if complete ver d = 0 then Some 4 else Some 0,
        concat (map (contact_line names) (map (decode_entry ver) (take (complete ver d) es))), h)" "dom h = dom h0"
    by (rule read_file_prefix [OF assms])
  then show ?thesis by (auto simp: nd_reader_main_def)
qed

theorem nd_reader_prints_contacts_witness:
  "(\<exists>h. nd_reader_main getname_example bump_malloc Big Map.empty npc_blank (Some (nd_file 0 [take 25 entry_example])) =
      Some (Some 0, replicate 11 32 @ [10, 0, 0, 1, 32, 54, 10], h) \<and> dom h = {}) \<and>
   (\<exists>h. nd_reader_main getname_example bump_malloc Big Map.empty npc_blank (Some (take 7 (nd_file 0 [take 25 entry_example]))) =
      Some (Some 4, [], h) \<and> dom h = {})"
proof -
  let ?names = "\<lambda>ip port. (ip, [of_nat port])" and ?f = "nd_file 0 [take 25 entry_example]"
  have names: "getname_ok Big getname_example ?names" by (simp add: getname_ok_def getname_example_def)
  note p = nd_reader_prints_contacts [OF bump_malloc_total entry_example_ok(2) _ npc_blank_ok names, of Map.empty]
  have whole: "complete 0 ?f = 1" using complete_whole [OF entry_example_ok(2)] by simp
  have part: "complete 0 (take 7 ?f) = 0" by (simp add: complete_def header_len_def goal_of_def)
  obtain h where h: "nd_reader_main getname_example bump_malloc Big Map.empty npc_blank (Some ?f) =
      Some (Some 0, concat (map (contact_line ?names) (map (decode_entry 0) [take 25 entry_example])), h)" "dom h = {}"
    using p [of ?f "[]"] whole by auto
  have "c_ip (decode_entry 0 (take 25 entry_example)) = [10, 0, 0, 1]" "c_tcp (decode_entry 0 (take 25 entry_example)) = 4662"
    by (simp_all add: decode_entry_def entry_example_def le16_def)
  then have "contact_line ?names (decode_entry 0 (take 25 entry_example)) = replicate 11 32 @ [10, 0, 0, 1, 32, 54, 10]"
    by (simp add: contact_line_def print_line_def)
  with h p [of "take 7 ?f" "drop 7 ?f"] part show ?thesis by auto
qed

text \<open>C18. What \<open>nd_reader\<close> does with any file and any answers of \<open>malloc\<close> and of \<open>getnameinfo\<close>, whose status it ignores.
  When the parser reports an error it prints it, exits with 3 and has freed every peer it made; when no entry
  was read it exits with 4. Otherwise the first peer of the list decides: if \<open>getnameinfo\<close> fails for it, the
  arrays of host and port are read before anything was written to them; if not, every access is inside its
  object, the program exits with 0 and has freed every peer.\<close>

theorem nd_reader_safe:
  assumes "malloc_ok malloc" "length (head npc) = 12" "length (cur_e npc) = 34"
  shows "case read_loop malloc e h0 (snd (nd_parse_init npc)) (freads bs) of
      None \<Rightarrow> False
    | Some (Inl (p, h)) \<Rightarrow> p < 0 \<and> dom h = dom h0 \<and>
        nd_reader_main getname malloc e h0 npc (Some bs) = Some (Some 3, str ''god: '' @ enc_int p @ [10], h)
    | Some (Inr (h, npc1)) \<Rightarrow> (case peers npc1 of
          None \<Rightarrow> dom h = dom h0 \<and> nd_reader_main getname malloc e h0 npc (Some bs) = Some (Some 4, [], h)
        | Some a \<Rightarrow> (case h a of
              None \<Rightarrow> False
            | Some kp \<Rightarrow>
                if getname (kp_tcp kp) = None then nd_reader_main getname malloc e h0 npc (Some bs) = None
                else \<exists>out h'. nd_reader_main getname malloc e h0 npc (Some bs) = Some (Some 0, out, h') \<and> dom h' = dom h0))"
  using assms
proof (cases rule: read_file_any [where e = e and ?h0.0 = h0 and bs = bs and r = "Some 0" and getname = getname])
  case (failed p h)
  then show ?thesis by (simp add: nd_reader_main_def)
next
  case (empty h npc1)
  then show ?thesis by (simp add: nd_reader_main_def)
next
  case (peers h npc1 a kp)
  then show ?thesis by (simp add: nd_reader_main_def)
qed

text \<open>A valid file: with a \<open>getnameinfo\<close> that fails the program is undefined, with one that does not it exits with 0.\<close>

theorem nd_reader_safe_witness:
  "nd_reader_main (\<lambda>sa. None) bump_malloc Big Map.empty npc_blank (Some (nd_file 0 [take 25 entry_example])) = None \<and>
   (\<exists>out h. nd_reader_main getname_example bump_malloc Big Map.empty npc_blank (Some (nd_file 0 [take 25 entry_example])) =
     Some (Some 0, out, h))"
proof -
  let ?f = "nd_file 0 [take 25 entry_example]" and ?none = "\<lambda>sa :: sockaddr_in. None :: (bytes \<times> bytes) option"
  have mok: "malloc_ok bump_malloc" using bump_malloc_total by (simp add: malloc_total_def)
  have "getname_ok Big getname_example (\<lambda>ip port. (ip, [of_nat port]))" by (simp add: getname_ok_def getname_example_def)
  then obtain h where main: "nd_reader_main getname_example bump_malloc Big Map.empty npc_blank (Some ?f) =
      Some (Some 0, concat (map (contact_line (\<lambda>ip port. (ip, [of_nat port]))) (map (decode_entry 0) [take 25 entry_example])), h)"
    using read_file_valid [OF bump_malloc_total entry_example_ok(2) _ npc_blank_ok, of Map.empty Big getname_example _ "Some 0"]
    by (auto simp: nd_reader_main_def)
  note p = nd_reader_safe [OF mok npc_blank_ok, where e = Big and ?h0.0 = Map.empty and bs = ?f]
  from p [where getname = getname_example] main obtain h npc1 a kp where
    "read_loop bump_malloc Big Map.empty (snd (nd_parse_init npc_blank)) (freads ?f) = Some (Inr (h, npc1))"
    "peers npc1 = Some a" "h a = Some kp"
    by (auto split: option.splits sum.splits prod.splits)
  with p [where getname = ?none] main show ?thesis by simp
qed

end
