(* ===== verification/Dht.thy ===== *)
theory Dht
  imports Krpc_Meaning Complex_Main
begin

text \<open>
  The node of \<open>bt_dht.c\<close>: its socket with the peers, the ping and the timer of a peer, the handler of
  incoming packets, and \<open>main\<close>. The event library (libev), the resolver, the sockets, \<open>malloc\<close>, the random
  device and the printing of the penny library are not in the repository: they are arguments, gathered in a
  record. Results that may differ from call to call (\<open>sendto\<close>, \<open>recvfrom\<close>) are arguments of the operation.
  Times (\<open>ev_tstamp\<close>) are rational numbers: the rounding of \<open>double\<close> is not modelled. A result \<open>None\<close>
  is undefined behaviour.
\<close>

subsection \<open>The routing table\<close>

text \<open>Declared by the program and used nowhere; \<open>'n\<close> and \<open>'r\<close> are the nodes and roots of the rbtree library.\<close>

record 'n bucket =
  bk_node :: 'n
  bk_num_nodes :: int
  bk_time_last_changed :: int

record 'r routing_table =
  rt_bucket_ct :: size_t
  rt_nodes_per_bucket :: size_t
  rt_buckets :: 'r

subsection \<open>The libraries\<close>

record addrinfo =
  ai_family :: int
  ai_socktype :: int
  ai_protocol :: int
  ai_addr :: bytes \<comment> \<open>\<open>ai_addrlen\<close> bytes\<close>

text \<open>Timers: initialising, setting (after, repeat), starting at a time of the loop, the moment of expiry of an
  active timer, and what the loop does to a timer before it calls its callback.\<close>

record 't ev_ops =
  ev_init :: 't
  ev_timer_set :: "'t \<Rightarrow> rat \<Rightarrow> rat \<Rightarrow> 't"
  ev_timer_start :: "rat \<Rightarrow> 't \<Rightarrow> 't"
  ev_due :: "'t \<Rightarrow> rat option"
  ev_expire :: "'t \<Rightarrow> 't"

definition ev_ok :: "'t ev_ops \<Rightarrow> bool" where
  "ev_ok ev \<longleftrightarrow> ev_due ev (ev_init ev) = None \<and>
     (\<forall>w now after. ev_due ev w = None \<longrightarrow> 0 \<le> after \<longrightarrow>
        ev_due ev (ev_timer_start ev now (ev_timer_set ev w after 0)) = Some (now + after)) \<and>
     (\<forall>w now after. ev_due ev w = None \<longrightarrow> 0 \<le> after \<longrightarrow>
        ev_due ev (ev_expire ev (ev_timer_start ev now (ev_timer_set ev w after 0))) = None)"

subsection \<open>The state\<close>

record 't dht_peer = \<comment> \<open>\<open>parent\<close> is the one socket of the program\<close>
  dp_name :: bytes
  dp_service :: bytes
  dp_addr :: "addrinfo option"
  dp_stale_timer :: 't
  dp_last_activity :: rat
  dp_id :: bt_node_id

record sent =
  sn_time :: rat
  sn_fd :: int
  sn_data :: bytes
  sn_addr :: bytes
  sn_result :: int

type_synonym 't peer_heap = "ptr \<Rightarrow> 't dht_peer option"

text \<open>The socket, with what the loop and the system add: the time, the peers on the heap, the datagrams sent.\<close>

record ('d, 't) sock =
  sk_fd :: int
  sk_peers :: "ptr list"
  sk_buf :: 'd
  sk_my_id :: bt_node_id
  ev_now :: rat
  sk_heap :: "'t peer_heap"
  sk_sent :: "sent list"

record ('d, 't) dht_env =
  en_darray :: "'d darray_ops"
  en_new :: 'd \<comment> \<open>\<open>darray_new()\<close>\<close>
  en_ev :: "'t ev_ops"
  en_print :: "bytes \<Rightarrow> size_t \<Rightarrow> bytes option" \<comment> \<open>\<open>print_bytes_as_cstring\<close>\<close>
  en_malloc :: "'t peer_heap \<Rightarrow> ptr option"
  en_client_lookup :: "bytes \<Rightarrow> bytes \<Rightarrow> addrinfo option"
  en_server_lookup :: "addrinfo option"
  en_socket :: "int \<Rightarrow> int \<Rightarrow> int \<Rightarrow> int"
  en_urandom :: "bytes option" \<comment> \<open>\<open>None\<close> when \<open>/dev/urandom\<close> cannot be opened\<close>

definition env_ok :: "('d, 't) dht_env \<Rightarrow> bool" where
  "env_ok en \<longleftrightarrow> darray_ok (en_darray en) \<and> da_items (en_darray en) (en_new en) = [] \<and> ev_ok (en_ev en) \<and>
     (\<forall>bs n. en_print en bs n = None \<longleftrightarrow> length bs < unat n) \<and>
     (\<forall>h a. en_malloc en h = Some a \<longrightarrow> h a = None)"

definition PEER_TIMEOUT :: rat where
  "PEER_TIMEOUT = 10"

subsection \<open>The operations\<close>

text \<open>\<open>r\<close> is the result of \<open>sendto\<close>; after -1 the code only warns.\<close>

definition send_ping_to_peer :: "('d, 't) dht_env \<Rightarrow> int \<Rightarrow> ('d, 't) sock \<Rightarrow> ptr \<Rightarrow> ('d, 't) sock option" where
  "send_ping_to_peer en r s a = do {
     p \<leftarrow> sk_heap s a;
     buf \<leftarrow> krpc_gen_ping (en_darray en) (da_reset (en_darray en) (sk_buf s)) (sk_my_id s) (literal ''tt'') 0 2;
     let data = da_items (en_darray en) buf;
     _ \<leftarrow> en_print en data (of_nat (length data));
     addr \<leftarrow> dp_addr p;
     Some (s\<lparr>sk_buf := buf,
       sk_sent := sk_sent s @
         [\<lparr>sn_time = ev_now s, sn_fd = sk_fd s, sn_data = data, sn_addr = ai_addr addr, sn_result = r\<rparr>]\<rparr>)
   }"

definition set_timer :: "('d, 't) dht_env \<Rightarrow> ('d, 't) sock \<Rightarrow> ptr \<Rightarrow> rat \<Rightarrow> ('d, 't) sock option" where
  "set_timer en s a after = do {
     p \<leftarrow> sk_heap s a;
     let w = ev_timer_start (en_ev en) (ev_now s) (ev_timer_set (en_ev en) (dp_stale_timer p) after 0);
     Some (s\<lparr>sk_heap := (sk_heap s)(a \<mapsto> p\<lparr>dp_stale_timer := w\<rparr>)\<rparr>)
   }"

definition on_peer_timeout :: "('d, 't) dht_env \<Rightarrow> int \<Rightarrow> ('d, 't) sock \<Rightarrow> ptr \<Rightarrow> ('d, 't) sock option" where
  "on_peer_timeout en r s a = do {
     p \<leftarrow> sk_heap s a;
     let after = dp_last_activity p - ev_now s + PEER_TIMEOUT;
     if after < 0 then do {
       s \<leftarrow> send_ping_to_peer en r s a;
       set_timer en s a PEER_TIMEOUT
     }
     else set_timer en s a after
   }"

text \<open>\<open>buf\<close> is what the array of 2048 bytes holds before; \<open>recv\<close> is the datagram, or \<open>None\<close> when
  \<open>recvfrom\<close> fails. The result is the length printed and the text.\<close>

definition sock_cb :: "('d, 't) dht_env \<Rightarrow> bytes \<Rightarrow> bytes option \<Rightarrow> (int \<times> bytes) option" where
  "sock_cb en buf recv =
     (let (l, buf) = (case recv of
           None \<Rightarrow> (- 1, buf)
         | Some d \<Rightarrow> (int (min (length d) 2048), take 2048 d @ drop (length d) buf)) in
      do {
        out \<leftarrow> en_print en buf (of_int l);
        Some (l, out)
      })"

text \<open>\<open>errx\<close> and \<open>err\<close> end the program with status 1.\<close>

datatype 's run = Exit int | Running 's

definition load_random_id :: "('d, 't) dht_env \<Rightarrow> bt_node_id run" where
  "load_random_id en =
     (case en_urandom en of
        None \<Rightarrow> Exit 1
      | Some bs \<Rightarrow> if length (take 20 bs) \<noteq> 20 then Exit 1 else Running \<lparr>ni_id = take 20 bs\<rparr>)"

text \<open>The addresses freed, and the peer with its new one.\<close>

definition resolve_peer :: "('d, 't) dht_env \<Rightarrow> 't dht_peer \<Rightarrow> (addrinfo option \<times> 't dht_peer) run" where
  "resolve_peer en p =
     (case en_client_lookup en (dp_name p) (dp_service p) of
        None \<Rightarrow> Exit 1
      | Some addr \<Rightarrow> Running (dp_addr p, p\<lparr>dp_addr := Some addr\<rparr>))"

definition add_peer ::
  "('d, 't) dht_env \<Rightarrow> ('d, 't) sock \<Rightarrow> bytes \<Rightarrow> bytes \<Rightarrow> (ptr option \<times> ('d, 't) sock) run" where
  "add_peer en s name service =
     (case en_malloc en (sk_heap s) of
        None \<Rightarrow> Running (None, s)
      | Some a \<Rightarrow>
          (case resolve_peer en
              \<lparr>dp_name = name, dp_service = service, dp_addr = None, dp_stale_timer = ev_init (en_ev en),
               dp_last_activity = 0, dp_id = \<lparr>ni_id = replicate 20 0\<rparr>\<rparr> of
             Exit n \<Rightarrow> Exit n
           | Running (freed, p) \<Rightarrow>
               (let w = ev_timer_start (en_ev en) (ev_now s)
                          (ev_timer_set (en_ev en) (ev_init (en_ev en)) PEER_TIMEOUT 0);
                    p = p\<lparr>dp_stale_timer := w, dp_last_activity := ev_now s\<rparr> in
                Running (Some a, s\<lparr>sk_heap := (sk_heap s)(a \<mapsto> p), sk_peers := a # sk_peers s\<rparr>))))"

text \<open>\<open>main\<close> up to \<open>ev_run\<close>, at time \<open>now\<close> of the loop; \<open>r\<close> is the result of \<open>sendto\<close>. A peer that could
  not be allocated is a null pointer for \<open>send_ping_to_peer\<close>.\<close>

definition dht_main ::
  "('d, 't) dht_env \<Rightarrow> 't peer_heap \<Rightarrow> rat \<Rightarrow> int \<Rightarrow> bytes list \<Rightarrow> ('d, 't) sock run option" where
  "dht_main en h now r argv =
     (if length argv \<noteq> 3 then Some (Exit 1)
      else (case en_server_lookup en of
          None \<Rightarrow> Some (Exit 1)
        | Some local \<Rightarrow>
            (let sfd = en_socket en (ai_family local) (ai_socktype local) (ai_protocol local) in
             if sfd = - 1 then Some (Exit 1)
             else (case load_random_id en of
                 Exit n \<Rightarrow> Some (Exit n)
               | Running my_id \<Rightarrow>
                   (let s = \<lparr>sk_fd = sfd, sk_peers = [], sk_buf = en_new en, sk_my_id = my_id, ev_now = now,
                             sk_heap = h, sk_sent = []\<rparr> in
                    case add_peer en s (argv ! 1) (argv ! 2) of
                      Exit n \<Rightarrow> Some (Exit n)
                    | Running (None, s) \<Rightarrow> None
                    | Running (Some a, s) \<Rightarrow> do { s \<leftarrow> send_ping_to_peer en r s a; Some (Running s) })))))"

subsection \<open>The event loop\<close>

text \<open>What the loop can do next: let time pass, call the timer of a peer that is due (the timer has
  expired before), or call \<open>sock_cb\<close> on a datagram. The result \<open>None\<close> is a step that is undefined.\<close>

datatype event = Tick rat | Timeout ptr int | Readable bytes "bytes option"

inductive dht_step :: "('d, 't) dht_env \<Rightarrow> ('d, 't) sock \<Rightarrow> event \<Rightarrow> ('d, 't) sock option \<Rightarrow> bool" for en where
  step_tick: "ev_now s \<le> t \<Longrightarrow> dht_step en s (Tick t) (Some (s\<lparr>ev_now := t\<rparr>))"
| step_timeout: "a \<in> set (sk_peers s) \<Longrightarrow> sk_heap s a = Some p \<Longrightarrow>
    ev_due (en_ev en) (dp_stale_timer p) = Some t \<Longrightarrow> t \<le> ev_now s \<Longrightarrow>
    dht_step en s (Timeout a r) (on_peer_timeout en r
      (s\<lparr>sk_heap := (sk_heap s)(a \<mapsto> p\<lparr>dp_stale_timer := ev_expire (en_ev en) (dp_stale_timer p)\<rparr>)\<rparr>) a)"
| step_readable: "length buf = 2048 \<Longrightarrow>
    dht_step en s (Readable buf recv) (case sock_cb en buf recv of None \<Rightarrow> None | Some out \<Rightarrow> Some s)"

inductive_cases dht_step_tickE: "dht_step en s (Tick t) s'"
inductive_cases dht_step_timeoutE: "dht_step en s (Timeout a r) s'"
inductive_cases dht_step_readableE: "dht_step en s (Readable buf recv) s'"

inductive dht_reach :: "('d, 't) dht_env \<Rightarrow> ('d, 't) sock \<Rightarrow> ('d, 't) sock \<Rightarrow> bool" for en s0 where
  reach_start: "dht_reach en s0 s0"
| reach_step: "dht_reach en s0 s \<Longrightarrow> dht_step en s ev (Some s') \<Longrightarrow> dht_reach en s0 s'"

text \<open>Runs in which nothing is received.\<close>

inductive dht_quiet :: "('d, 't) dht_env \<Rightarrow> ('d, 't) sock \<Rightarrow> ('d, 't) sock \<Rightarrow> bool" for en s0 where
  quiet_start: "dht_quiet en s0 s0"
| quiet_tick: "dht_quiet en s0 s \<Longrightarrow> dht_step en s (Tick t) (Some s') \<Longrightarrow> dht_quiet en s0 s'"
| quiet_timeout: "dht_quiet en s0 s \<Longrightarrow> dht_step en s (Timeout a r) (Some s') \<Longrightarrow> dht_quiet en s0 s'"

lemma dht_quiet_reach: "dht_quiet en s0 s \<Longrightarrow> dht_reach en s0 s"
  by (induction rule: dht_quiet.induct) (blast intro: dht_reach.intros)+

lemma dht_quiet_trans: "dht_quiet en s1 s2 \<Longrightarrow> dht_quiet en s0 s1 \<Longrightarrow> dht_quiet en s0 s2"
  by (induction rule: dht_quiet.induct) (blast intro: dht_quiet.intros)+

subsection \<open>The invariant of the loop\<close>

definition armed :: "('d, 't) dht_env \<Rightarrow> 't \<Rightarrow> rat \<Rightarrow> bool" where
  "armed en w t \<longleftrightarrow> (\<exists>w0 now after. ev_due (en_ev en) w0 = None \<and> 0 \<le> after \<and> t = now + after \<and>
     w = ev_timer_start (en_ev en) now (ev_timer_set (en_ev en) w0 after 0))"

lemma armed_due: "env_ok en \<Longrightarrow> armed en w t \<Longrightarrow> ev_due (en_ev en) w = Some t"
  by (auto simp: armed_def env_ok_def ev_ok_def)

lemma armed_expire: "env_ok en \<Longrightarrow> armed en w t \<Longrightarrow> ev_due (en_ev en) (ev_expire (en_ev en) w) = None"
  by (auto simp: armed_def env_ok_def ev_ok_def)

lemma armedI: "ev_due (en_ev en) w = None \<Longrightarrow> 0 \<le> after \<Longrightarrow>
    armed en (ev_timer_start (en_ev en) now (ev_timer_set (en_ev en) w after 0)) (now + after)"
  by (auto simp: armed_def)

text \<open>The datagrams sent so far: pings to the address, at least \<open>PEER_TIMEOUT\<close> apart, from \<open>t0\<close> on.\<close>

definition sent_ok :: "int \<Rightarrow> bytes \<Rightarrow> bytes \<Rightarrow> rat \<Rightarrow> sent list \<Rightarrow> bool" where
  "sent_ok fd addr i t0 sent \<longleftrightarrow>
     (\<forall>e \<in> set sent. sn_fd e = fd \<and> sn_addr e = addr \<and> sn_data e = ping_bytes i (str ''tt'') \<and> t0 \<le> sn_time e) \<and>
     sorted_wrt (\<lambda>x y. x + PEER_TIMEOUT \<le> y) (map sn_time sent)"

text \<open>The state with its one peer at \<open>a\<close>, whose timer expires at \<open>t\<close>.\<close>

definition node_at :: "('d, 't) dht_env \<Rightarrow> int \<Rightarrow> addrinfo \<Rightarrow> bytes \<Rightarrow> rat \<Rightarrow> ptr \<Rightarrow> rat \<Rightarrow> ('d, 't) sock \<Rightarrow> bool" where
  "node_at en fd ai i t0 a t s \<longleftrightarrow> sk_fd s = fd \<and> sk_peers s = [a] \<and> ni_id (sk_my_id s) = i \<and> id_ok (sk_my_id s) \<and>
     (\<exists>p. sk_heap s a = Some p \<and> dp_addr p = Some ai \<and> dp_last_activity p = t0 \<and>
        armed en (dp_stale_timer p) t) \<and>
     t \<le> ev_now s + PEER_TIMEOUT \<and> sk_sent s \<noteq> [] \<and> sent_ok fd (ai_addr ai) i t0 (sk_sent s) \<and>
     (\<forall>e \<in> set (sk_sent s). sn_time e + PEER_TIMEOUT \<le> t)"

lemma send_ping_sends:
  assumes "env_ok en" "sk_heap s a = Some p" "dp_addr p = Some ai" "id_ok (sk_my_id s)"
  obtains buf where "send_ping_to_peer en r s a = Some (s\<lparr>sk_buf := buf, sk_sent := sk_sent s @
    [\<lparr>sn_time = ev_now s, sn_fd = sk_fd s, sn_data = ping_bytes (ni_id (sk_my_id s)) (str ''tt''), sn_addr = ai_addr ai,
      sn_result = r\<rparr>]\<rparr>)"
proof -
  let ?da = "en_darray en"
  have da: "darray_ok ?da" using assms(1) by (simp add: env_ok_def)
  have "inside (literal ''tt'') 0 (unat (2 :: size_t))" "view (literal ''tt'') 0 (unat (2 :: size_t)) = str ''tt''"
      "unat (2 :: size_t) \<le> INT_MAX"
    by (simp_all add: inside_def view_def literal_def INT_MAX_def)
  from krpc_gen_ping_bytes [OF da assms(4) this(1,3), unfolded this(2) writes_def, THEN spec,
      of "da_reset ?da (sk_buf s)"]
  obtain buf where buf: "krpc_gen_ping ?da (da_reset ?da (sk_buf s)) (sk_my_id s) (literal ''tt'') 0 2 = Some buf"
      "da_items ?da buf = ping_bytes (ni_id (sk_my_id s)) (str ''tt'')"
    using darray_okD(3) [OF da, of "sk_buf s"] by auto
  have "unat (of_nat k :: size_t) \<le> k" for k :: nat
    by (simp add: unsigned_of_nat take_bit_nat_less_eq_self)
  then have "\<not> length x < unat (of_nat (length x) :: size_t)" for x :: bytes
    by (simp add: not_less)
  then have "en_print en x (of_nat (length x)) \<noteq> None" for x
    using assms(1) unfolding env_ok_def by metis
  then obtain out where "en_print en (da_items ?da buf) (of_nat (length (da_items ?da buf))) = Some out" by blast
  with buf assms(2,3) that [of buf] show thesis
    by (simp add: send_ping_to_peer_def)
qed

text \<open>The callback of the timer, called after the timer has expired at \<open>t\<close>.\<close>

lemma set_timer_arms:
  assumes "sk_heap s a = Some p" "ev_due (en_ev en) (dp_stale_timer p) = None" "0 \<le> after"
  obtains w where "set_timer en s a after = Some (s\<lparr>sk_heap := (sk_heap s)(a \<mapsto> p\<lparr>dp_stale_timer := w\<rparr>)\<rparr>)"
    "armed en w (ev_now s + after)"
  using assms armedI [of en "dp_stale_timer p" after "ev_now s"] by (simp add: set_timer_def Let_def)

lemma sent_ok_snoc:
  assumes "sent_ok fd addr i t0 sent" "\<forall>e \<in> set sent. sn_time e + PEER_TIMEOUT \<le> t" "t0 \<le> t"
  shows "sent_ok fd addr i t0 (sent @ [\<lparr>sn_time = t, sn_fd = fd, sn_data = ping_bytes i (str ''tt''), sn_addr = addr, sn_result = r\<rparr>])"
  using assms by (auto simp: sent_ok_def sorted_wrt_append)

lemma on_peer_timeout_node:
  assumes en: "env_ok en" and node: "node_at en fd ai i t0 a t s" and p: "sk_heap s a = Some p" and due: "t \<le> ev_now s"
  defines "s1 \<equiv> s\<lparr>sk_heap := (sk_heap s)(a \<mapsto> p\<lparr>dp_stale_timer := ev_expire (en_ev en) (dp_stale_timer p)\<rparr>)\<rparr>"
  obtains s' t' where "on_peer_timeout en r s1 a = Some s'" "node_at en fd ai i t0 a t' s'" "ev_now s' = ev_now s"
    "length (sk_sent s') = (if t0 + PEER_TIMEOUT < ev_now s then Suc (length (sk_sent s)) else length (sk_sent s))"
    "sk_sent s = take (length (sk_sent s)) (sk_sent s')"
    "t' \<le> sn_time (last (sk_sent s')) + PEER_TIMEOUT"
    "sn_time (last (sk_sent s')) = (if t0 + PEER_TIMEOUT < ev_now s then ev_now s else sn_time (last (sk_sent s)))"
proof -
  note result = that
  let ?p = "p\<lparr>dp_stale_timer := ev_expire (en_ev en) (dp_stale_timer p)\<rparr>"
  from node p have n: "sk_fd s = fd" "sk_peers s = [a]" "ni_id (sk_my_id s) = i" "id_ok (sk_my_id s)"
      "dp_addr p = Some ai" "dp_last_activity p = t0" "armed en (dp_stale_timer p) t"
      "sk_sent s \<noteq> []" "sent_ok fd (ai_addr ai) i t0 (sk_sent s)" "\<forall>e \<in> set (sk_sent s). sn_time e + PEER_TIMEOUT \<le> t"
    by (auto simp: node_at_def)
  have idle: "ev_due (en_ev en) (dp_stale_timer ?p) = None" using armed_expire [OF en n(7)] by simp
  have s1: "sk_heap s1 a = Some ?p" "dp_addr ?p = Some ai" "id_ok (sk_my_id s1)" "ev_now s1 = ev_now s"
    using n by (simp_all add: s1_def)
  have sent: "\<forall>e \<in> set (sk_sent s). sn_time e + PEER_TIMEOUT \<le> ev_now s" using n(10) due by force
  obtain e0 where "e0 \<in> set (sk_sent s)" using n(8) by (cases "sk_sent s") auto
  with n(9) sent have t0: "t0 + PEER_TIMEOUT \<le> ev_now s" unfolding sent_ok_def by force
  have "last (sk_sent s) \<in> set (sk_sent s)" using n(8) by simp
  with n(9) have last: "t0 \<le> sn_time (last (sk_sent s))" unfolding sent_ok_def by blast
  show thesis
  proof (cases "t0 + PEER_TIMEOUT < ev_now s")
    case True
    obtain buf where buf: "send_ping_to_peer en r s1 a = Some (s1\<lparr>sk_buf := buf, sk_sent := sk_sent s1 @
        [\<lparr>sn_time = ev_now s1, sn_fd = sk_fd s1, sn_data = ping_bytes (ni_id (sk_my_id s1)) (str ''tt''), sn_addr = ai_addr ai,
          sn_result = r\<rparr>]\<rparr>)" (is "_ = Some ?s2")
      by (rule send_ping_sends [OF en s1(1-3)])
    have "sk_heap ?s2 a = Some ?p" "0 \<le> PEER_TIMEOUT" using s1 by (simp_all add: PEER_TIMEOUT_def)
    from set_timer_arms [OF this(1) idle this(2)] obtain w where w:
      "set_timer en ?s2 a PEER_TIMEOUT = Some (?s2\<lparr>sk_heap := (sk_heap ?s2)(a \<mapsto> ?p\<lparr>dp_stale_timer := w\<rparr>)\<rparr>)" (is "_ = Some ?s3")
      "armed en w (ev_now s + PEER_TIMEOUT)" unfolding s1(4) [symmetric] by auto
    have "on_peer_timeout en r s1 a = Some ?s3"
      using True n(6) s1 buf w(1) by (simp add: on_peer_timeout_def)
    moreover have "node_at en fd ai i t0 a (ev_now s + PEER_TIMEOUT) ?s3"
      using n w(2) sent sent_ok_snoc [OF n(9) sent, of r] t0 by (auto simp: node_at_def s1_def PEER_TIMEOUT_def)
    ultimately show thesis using True
      by (intro result [of ?s3 "ev_now s + PEER_TIMEOUT"]) (assumption | simp add: s1_def)+
  next
    case False
    with t0 have after: "t0 - ev_now s + PEER_TIMEOUT = 0" by simp
    from set_timer_arms [OF s1(1) idle, of 0] obtain w where w:
      "set_timer en s1 a 0 = Some (s1\<lparr>sk_heap := (sk_heap s1)(a \<mapsto> ?p\<lparr>dp_stale_timer := w\<rparr>)\<rparr>)" (is "_ = Some ?s3")
      "armed en w (ev_now s)" using s1(4) by auto
    have "on_peer_timeout en r s1 a = Some ?s3"
      using after n(6) s1 w(1) by (simp add: on_peer_timeout_def)
    moreover have "node_at en fd ai i t0 a (ev_now s) ?s3"
      using n w(2) sent by (auto simp: node_at_def s1_def PEER_TIMEOUT_def)
    ultimately show thesis using False t0 last
      by (intro result [of ?s3 "ev_now s"]) (assumption | simp add: s1_def)+
  qed
qed

subsection \<open>The loop keeps the invariant\<close>

lemma sock_cb_failed: "env_ok en \<Longrightarrow> length buf = 2048 \<Longrightarrow> sock_cb en buf None = None"
proof -
  assume a: "env_ok en" "length buf = 2048"
  have "unat (- 1 :: size_t) = 2 ^ 64 - 1" by (simp add: unsigned_minus_1_eq_mask mask_eq_exp_minus_1)
  with a(2) have "length buf < unat (- 1 :: size_t)" by simp
  with a(1) have "en_print en buf (- 1) = None" unfolding env_ok_def by blast
  then show ?thesis by (simp add: sock_cb_def)
qed

lemma sock_cb_received:
  assumes "env_ok en" "length buf = 2048"
  shows "\<exists>out. sock_cb en buf (Some d) = Some (int (min (length d) 2048), out)"
proof -
  let ?n = "min (length d) 2048"
  have "unat (of_int (int ?n) :: size_t) = ?n" by (simp add: unat_of_nat)
  then have "\<not> length (take 2048 d @ drop (length d) buf) < unat (of_int (int ?n) :: size_t)"
    using assms(2) by simp
  then have "en_print en (take 2048 d @ drop (length d) buf) (of_int (int ?n)) \<noteq> None"
    using assms(1) unfolding env_ok_def by metis
  then show ?thesis by (auto simp: sock_cb_def)
qed

lemma dht_step_node:
  assumes "env_ok en" "node_at en fd ai i t0 a t s" "dht_step en s ev s'"
  shows "(\<exists>s1 t1. s' = Some s1 \<and> node_at en fd ai i t0 a t1 s1) \<or> (\<exists>buf. ev = Readable buf None)"
  using assms(3)
proof cases
  case (step_tick t')
  with assms(2) show ?thesis by (fastforce simp: node_at_def)
next
  case (step_timeout b p t' r)
  have b: "b = a" using step_timeout assms(2) by (simp add: node_at_def)
  have "armed en (dp_stale_timer p) t" using step_timeout(4) assms(2) b by (auto simp: node_at_def)
  then have "t \<le> ev_now s" using armed_due [OF assms(1)] step_timeout(5,6) by simp
  from on_peer_timeout_node [OF assms(1,2) step_timeout(4) [unfolded b] this, of r]
  show ?thesis using step_timeout(2) b by metis
next
  case (step_readable buf recv)
  show ?thesis
  proof (cases recv)
    case (Some d)
    from sock_cb_received [OF assms(1) step_readable(3), of d] step_readable(2) Some assms(2) show ?thesis by auto
  qed (use step_readable in auto)
qed

lemma add_peer_node:
  assumes "env_ok en" "sk_heap s = h" "sk_peers s = []" "add_peer en s name service = Running (Some a, s1)"
  obtains p ai where "sk_heap s1 a = Some p" "dp_addr p = Some ai" "en_client_lookup en name service = Some ai"
    "dp_last_activity p = ev_now s" "armed en (dp_stale_timer p) (ev_now s + PEER_TIMEOUT)"
    "s1 = s\<lparr>sk_heap := h(a \<mapsto> p), sk_peers := [a]\<rparr>"
proof -
  have "ev_due (en_ev en) (ev_init (en_ev en)) = None" using assms(1) by (simp add: env_ok_def ev_ok_def)
  from armedI [OF this, of PEER_TIMEOUT "ev_now s"]
  have w: "armed en (ev_timer_start (en_ev en) (ev_now s) (ev_timer_set (en_ev en) (ev_init (en_ev en)) PEER_TIMEOUT 0))
      (ev_now s + PEER_TIMEOUT)" by (simp add: PEER_TIMEOUT_def)
  obtain ai where ai: "en_client_lookup en name service = Some ai"
    using assms(4) by (auto simp: add_peer_def resolve_peer_def split: option.splits)
  with assms(2-4) w that [OF _ _ ai] show thesis
    by (fastforce simp: add_peer_def resolve_peer_def Let_def split: option.splits)
qed

lemma dht_main_node:
  assumes "env_ok en" "dht_main en h now r argv = Some (Running s)"
  obtains a fd ai i where "node_at en fd ai i now a (now + PEER_TIMEOUT) s" "ev_now s = now"
    "length argv = 3" "en_client_lookup en (argv ! 1) (argv ! 2) = Some ai" "length (sk_sent s) = 1"
    "\<exists>bs. en_urandom en = Some bs \<and> i = take 20 bs"
proof -
  obtain local my_id a s1 where m: "length argv = 3" "en_server_lookup en = Some local" "load_random_id en = Running my_id"
      "add_peer en \<lparr>sk_fd = en_socket en (ai_family local) (ai_socktype local) (ai_protocol local), sk_peers = [],
         sk_buf = en_new en, sk_my_id = my_id, ev_now = now, sk_heap = h, sk_sent = []\<rparr> (argv ! 1) (argv ! 2) = Running (Some a, s1)"
      "send_ping_to_peer en r s1 a = Some s"
    using assms(2) by (auto simp: dht_main_def Let_def split: if_splits option.splits run.splits bind_splits)
  let ?s0 = "\<lparr>sk_fd = en_socket en (ai_family local) (ai_socktype local) (ai_protocol local), sk_peers = [],
         sk_buf = en_new en, sk_my_id = my_id, ev_now = now, sk_heap = h, sk_sent = []\<rparr>"
  obtain bs where id: "en_urandom en = Some bs" "ni_id my_id = take 20 bs" "id_ok my_id"
    using m(3) by (auto simp: load_random_id_def id_ok_def split: option.splits if_splits)
  from m(4) obtain p ai where p: "sk_heap s1 a = Some p" "dp_addr p = Some ai" "en_client_lookup en (argv ! 1) (argv ! 2) = Some ai"
      "dp_last_activity p = now" "armed en (dp_stale_timer p) (now + PEER_TIMEOUT)"
      "s1 = ?s0\<lparr>sk_heap := h(a \<mapsto> p), sk_peers := [a]\<rparr>"
    by (elim add_peer_node [OF assms(1), rotated 2]) simp_all
  have "id_ok (sk_my_id s1)" using p(6) id(3) by simp
  from send_ping_sends [OF assms(1) p(1,2) this, of r] m(5) obtain buf where
    s: "s = s1\<lparr>sk_buf := buf, sk_sent := sk_sent s1 @
      [\<lparr>sn_time = ev_now s1, sn_fd = sk_fd s1, sn_data = ping_bytes (ni_id (sk_my_id s1)) (str ''tt''), sn_addr = ai_addr ai,
        sn_result = r\<rparr>]\<rparr>" by auto
  have "node_at en (sk_fd s) ai (take 20 bs) now a (now + PEER_TIMEOUT) s" "ev_now s = now" "length (sk_sent s) = 1"
    using p id s by (simp_all add: node_at_def sent_ok_def)
  with that m(1) p(3) id show thesis by blast
qed

lemma dht_reach_node:
  assumes "env_ok en" "\<exists>t. node_at en fd ai i t0 a t s0" "dht_reach en s0 s"
  shows "\<exists>t. node_at en fd ai i t0 a t s"
  using assms(3,2)
proof induction
  case (reach_step s ev s')
  then obtain t where "node_at en fd ai i t0 a t s" by blast
  from dht_step_node [OF assms(1) this reach_step.hyps(2)] show ?case
  proof
    assume "\<exists>buf. ev = Readable buf None"
    then obtain buf where "ev = Readable buf None" by blast
    with reach_step.hyps(2) sock_cb_failed [OF assms(1)] show ?case by (auto elim!: dht_step_readableE)
  qed auto
qed

subsection \<open>How often the node pings\<close>

text \<open>Runs in which the loop calls a timer at most \<open>L\<close> after it is due: time does not pass beyond.\<close>

inductive dht_punctual :: "('d, 't) dht_env \<Rightarrow> rat \<Rightarrow> ('d, 't) sock \<Rightarrow> ('d, 't) sock \<Rightarrow> bool" for en L s0 where
  punctual_start: "dht_punctual en L s0 s0"
| punctual_step: "dht_punctual en L s0 s \<Longrightarrow> dht_step en s ev (Some s') \<Longrightarrow>
    (\<And>now a p t. ev = Tick now \<Longrightarrow> a \<in> set (sk_peers s) \<Longrightarrow> sk_heap s a = Some p \<Longrightarrow>
       ev_due (en_ev en) (dp_stale_timer p) = Some t \<Longrightarrow> now \<le> t + L) \<Longrightarrow>
    dht_punctual en L s0 s'"

lemma dht_punctual_reach: "dht_punctual en L s0 s \<Longrightarrow> dht_reach en s0 s"
  by (induction rule: dht_punctual.induct) (blast intro: dht_reach.intros)+

text \<open>The last ping was not long ago, and not more than the count of the pings allows after the start.\<close>

definition on_time :: "rat \<Rightarrow> rat \<Rightarrow> rat \<Rightarrow> ('d, 't) sock \<Rightarrow> bool" where
  "on_time L t0 t s \<longleftrightarrow> t \<le> sn_time (last (sk_sent s)) + PEER_TIMEOUT \<and> ev_now s \<le> t + L \<and>
     sn_time (last (sk_sent s)) \<le> t0 + of_nat (length (sk_sent s) - 1) * (PEER_TIMEOUT + L)"

lemma sent_gaps:
  assumes "sent_ok fd addr i t0 sent" "sent \<noteq> []"
  shows "t0 + of_nat (length sent - 1) * PEER_TIMEOUT \<le> sn_time (last sent)"
  using assms
proof (induction sent rule: rev_induct)
  case (snoc e sent)
  show ?case
  proof (cases "sent = []")
    case True
    with snoc.prems(1) show ?thesis by (simp add: sent_ok_def)
  next
    case False
    have ok: "sent_ok fd addr i t0 sent" using snoc.prems(1) by (simp add: sent_ok_def sorted_wrt_append)
    have "\<forall>x \<in> set sent. sn_time x + PEER_TIMEOUT \<le> sn_time e"
      using snoc.prems(1) by (auto simp: sent_ok_def sorted_wrt_append)
    with False have "sn_time (last sent) + PEER_TIMEOUT \<le> sn_time e" by simp
    moreover have "of_nat (length sent) * PEER_TIMEOUT = of_nat (length sent - 1) * PEER_TIMEOUT + PEER_TIMEOUT"
      using False by (cases sent) (simp_all add: algebra_simps)
    ultimately show ?thesis using snoc.IH [OF ok False] by simp
  qed
qed simp

lemma dht_punctual_on_time:
  assumes en: "env_ok en" and start: "node_at en fd ai i t0 a (t0 + PEER_TIMEOUT) s0" "ev_now s0 = t0" "length (sk_sent s0) = 1"
      "sn_time (last (sk_sent s0)) = t0"
    and L: "0 \<le> L" and run: "dht_punctual en L s0 s"
  shows "\<exists>t. node_at en fd ai i t0 a t s \<and> on_time L t0 t s"
  using run
proof induction
  case punctual_start
  from start L have "on_time L t0 (t0 + PEER_TIMEOUT) s0" by (simp add: on_time_def PEER_TIMEOUT_def)
  with start(1) show ?case by blast
next
  case (punctual_step s ev s')
  then obtain t where n: "node_at en fd ai i t0 a t s" and o: "on_time L t0 t s" by blast
  obtain p where p: "sk_peers s = [a]" "sk_heap s a = Some p" "armed en (dp_stale_timer p) t"
    using n by (auto simp: node_at_def)
  note due = armed_due [OF en p(3)]
  from punctual_step.hyps(2) show ?case
  proof cases
    case (step_tick now)
    have "a \<in> set (sk_peers s)" using p(1) by simp
    from punctual_step.hyps(3) [OF step_tick(1) this p(2) due] have "now \<le> t + L" .
    with o step_tick have "on_time L t0 t s'" by (simp add: on_time_def)
    moreover have "node_at en fd ai i t0 a t s'" using n step_tick by (fastforce simp: node_at_def)
    ultimately show ?thesis by blast
  next
    case (step_timeout b q t' r)
    have b: "b = a" using step_timeout(3) p(1) by simp
    have q: "q = p" using step_timeout(4) p(2) b by simp
    have le: "t \<le> ev_now s" using step_timeout(5,6) due q by simp
    let ?s = "s\<lparr>sk_heap := (sk_heap s)(a \<mapsto> p\<lparr>dp_stale_timer := ev_expire (en_ev en) (dp_stale_timer p)\<rparr>)\<rparr>"
    obtain s1 t1 where s1: "on_peer_timeout en r ?s a = Some s1" "node_at en fd ai i t0 a t1 s1" "ev_now s1 = ev_now s"
        "length (sk_sent s1) = (if t0 + PEER_TIMEOUT < ev_now s then Suc (length (sk_sent s)) else length (sk_sent s))"
        "t1 \<le> sn_time (last (sk_sent s1)) + PEER_TIMEOUT"
        "sn_time (last (sk_sent s1)) = (if t0 + PEER_TIMEOUT < ev_now s then ev_now s else sn_time (last (sk_sent s)))"
      by (rule on_peer_timeout_node [OF en n p(2) le, of r])
    have s': "s' = s1" using step_timeout(2) s1(1) unfolding b q by simp
    have ne: "sk_sent s \<noteq> []" using n by (simp add: node_at_def)
    have now: "ev_now s \<le> t1 + L"
    proof (cases "t0 + PEER_TIMEOUT < ev_now s")
      case True
      then have "sk_sent s1 \<noteq> []" using s1(4) by auto
      then have "last (sk_sent s1) \<in> set (sk_sent s1)" by simp
      then have "sn_time (last (sk_sent s1)) + PEER_TIMEOUT \<le> t1" using s1(2) unfolding node_at_def by blast
      with True s1(6) L show ?thesis by (simp add: PEER_TIMEOUT_def)
    next
      case False
      have "last (sk_sent s) \<in> set (sk_sent s)" using ne by simp
      then have "t0 \<le> sn_time (last (sk_sent s))" using n unfolding node_at_def sent_ok_def by blast
      moreover have "sk_sent s1 \<noteq> []" using s1(2) unfolding node_at_def by blast
      then have "last (sk_sent s1) \<in> set (sk_sent s1)" by simp
      then have "sn_time (last (sk_sent s1)) + PEER_TIMEOUT \<le> t1" using s1(2) unfolding node_at_def by blast
      ultimately show ?thesis using False s1(6) L by simp
    qed
    have "sn_time (last (sk_sent s1)) \<le> t0 + of_nat (length (sk_sent s1) - 1) * (PEER_TIMEOUT + L)"
    proof (cases "t0 + PEER_TIMEOUT < ev_now s")
      case True
      have "of_nat (length (sk_sent s)) * (PEER_TIMEOUT + L) =
          of_nat (length (sk_sent s) - 1) * (PEER_TIMEOUT + L) + PEER_TIMEOUT + L"
        using ne by (cases "sk_sent s") (simp_all add: algebra_simps)
      with True s1(4,6) o show ?thesis by (simp add: on_time_def)
    qed (use s1(4,6) o in \<open>simp add: on_time_def\<close>)
    with now s1 s' have "on_time L t0 t1 s'" by (simp add: on_time_def)
    with s1(2) s' show ?thesis by blast
  next
    case (step_readable buf recv)
    then have "s' = s" by (auto split: option.splits)
    with n o show ?thesis by blast
  qed
qed

end
