(* ===== verification/Dht_Properties.thy ===== *)
theory Dht_Properties
  imports Dht Krpc_Properties
begin

text \<open>
  The properties of the node of \<open>bt_dht.c\<close>: what every reachable state of its event loop satisfies, that it goes
  on pinging, and when it is undefined.
\<close>

text \<open>An environment: timers with their moment and a flag, arrays as lists.\<close>

definition ev_example :: "(rat \<times> bool) ev_ops" where
  "ev_example = \<lparr>ev_init = (0, False), ev_timer_set = (\<lambda>w after repeat. (after, snd w)),
     ev_timer_start = (\<lambda>now w. if snd w then w else (fst w + now, True)),
     ev_due = (\<lambda>w. if snd w then Some (fst w) else None), ev_expire = (\<lambda>w. (fst w, False))\<rparr>"

definition env_example :: "ptr option \<Rightarrow> (bytes, rat \<times> bool) dht_env" where
  "env_example mem = \<lparr>en_darray = list_darray, en_new = [], en_ev = ev_example,
     en_print = (\<lambda>bs n. if length bs < unat n then None else Some (take (unat n) bs)),
     en_malloc = (\<lambda>h. case mem of None \<Rightarrow> None | Some a \<Rightarrow> if h a = None then Some a else None),
     en_client_lookup = (\<lambda>name service. Some \<lparr>ai_family = 2, ai_socktype = 2, ai_protocol = 17, ai_addr = name @ service\<rparr>),
     en_server_lookup = Some \<lparr>ai_family = 2, ai_socktype = 2, ai_protocol = 17, ai_addr = []\<rparr>,
     en_socket = (\<lambda>f t p. 3), en_urandom = Some (replicate 20 65)\<rparr>"

lemma env_example_ok: "env_ok (env_example mem)"
  by (auto simp: env_ok_def env_example_def ev_ok_def ev_example_def list_darray_ok split: option.splits if_splits)
     (simp_all add: list_darray_def)

lemma main_example: "\<exists>s. dht_main (env_example (Some 1)) Map.empty 0 58 [[], [104], [53]] = Some (Running s)"
proof -
  obtain a s where add: "add_peer (env_example (Some 1)) \<lparr>sk_fd = 3, sk_peers = [], sk_buf = [],
      sk_my_id = \<lparr>ni_id = replicate 20 65\<rparr>, ev_now = 0, sk_heap = Map.empty, sk_sent = []\<rparr> [104] [53] = Running (Some a, s)"
    (is "add_peer _ ?s0 _ _ = _")
    by (simp add: add_peer_def resolve_peer_def env_example_def Let_def)
  obtain p ai where p: "sk_heap s a = Some p" "dp_addr p = Some ai"
      "s = ?s0\<lparr>sk_heap := Map.empty(a \<mapsto> p), sk_peers := [a]\<rparr>"
    by (rule add_peer_node [OF env_example_ok _ _ add]) simp_all
  have "id_ok (sk_my_id s)" using p(3) by (simp add: id_ok_def)
  then obtain buf where "send_ping_to_peer (env_example (Some 1)) 58 s a = Some buf"
    using send_ping_sends [OF env_example_ok p(1,2), of "Some 1" 58] by blast
  moreover have "load_random_id (env_example (Some 1)) = Running \<lparr>ni_id = replicate 20 65\<rparr>"
    by (simp add: load_random_id_def env_example_def)
  ultimately show ?thesis using add by (simp add: dht_main_def env_example_def)
qed

text \<open>C14. The invariant of the event loop, in every state the program can reach: its one peer has the address it
  was resolved to and a timer that is running and expires within \<open>PEER_TIMEOUT\<close>; every datagram sent went to
  this address and is the same ping, with the identifier read from the random device and transaction
  \<open>tt\<close>; two datagrams are at least \<open>PEER_TIMEOUT\<close> apart; and the time of the last activity is still the
  start of the program, whatever was received.\<close>

theorem dht_loop_invariant:
  assumes "env_ok en" "dht_main en h now r argv = Some (Running s0)" "dht_reach en s0 s"
  shows "\<exists>a p ai bs t. sk_peers s = [a] \<and> sk_heap s a = Some p \<and> dp_addr p = Some ai \<and>
    en_client_lookup en (argv ! 1) (argv ! 2) = Some ai \<and> dp_last_activity p = now \<and>
    ev_due (en_ev en) (dp_stale_timer p) = Some t \<and> t \<le> ev_now s + PEER_TIMEOUT \<and>
    en_urandom en = Some bs \<and>
    (\<forall>e \<in> set (sk_sent s). sn_addr e = ai_addr ai \<and> sn_data e = ping_bytes (take 20 bs) (str ''tt'')) \<and>
    sorted_wrt (\<lambda>x y. x + PEER_TIMEOUT \<le> y) (map sn_time (sk_sent s))"
proof -
  obtain a fd ai i where m: "node_at en fd ai i now a (now + PEER_TIMEOUT) s0"
      "en_client_lookup en (argv ! 1) (argv ! 2) = Some ai" "\<exists>bs. en_urandom en = Some bs \<and> i = take 20 bs"
    by (rule dht_main_node [OF assms(1,2)])
  obtain bs where bs: "en_urandom en = Some bs" "i = take 20 bs" using m(3) by blast
  obtain t where n: "node_at en fd ai i now a t s"
    using dht_reach_node [OF assms(1) _ assms(3)] m(1) by blast
  then obtain p where p: "sk_peers s = [a]" "sk_heap s a = Some p" "dp_addr p = Some ai" "dp_last_activity p = now"
      "armed en (dp_stale_timer p) t" "t \<le> ev_now s + PEER_TIMEOUT" "sent_ok fd (ai_addr ai) i now (sk_sent s)"
    by (auto simp: node_at_def)
  from p armed_due [OF assms(1) p(5)] m(2) bs show ?thesis
    by (intro exI [of _ a] exI [of _ p] exI [of _ ai] exI [of _ bs] exI [of _ t]) (simp add: sent_ok_def)
qed

theorem dht_loop_invariant_witness:
  "\<exists>s a p ai bs. dht_main (env_example (Some 1)) Map.empty 0 58 [[], [104], [53]] = Some (Running s) \<and>
     sk_heap s a = Some p \<and> dp_addr p = Some ai \<and> en_urandom (env_example (Some 1)) = Some bs \<and>
     (\<forall>e \<in> set (sk_sent s). sn_addr e = ai_addr ai \<and> sn_data e = ping_bytes (take 20 bs) (str ''tt''))"
proof -
  obtain s where s: "dht_main (env_example (Some 1)) Map.empty 0 58 [[], [104], [53]] = Some (Running s)"
    using main_example by blast
  from dht_loop_invariant [OF env_example_ok s reach_start] s show ?thesis by blast
qed

lemma dht_next_ping:
  assumes "env_ok en" "node_at en fd ai i now a t s" "0 < d"
  shows "\<exists>s' t'. dht_quiet en s s' \<and> node_at en fd ai i now a t' s' \<and> length (sk_sent s') = Suc (length (sk_sent s)) \<and>
    ev_now s' \<le> ev_now s + PEER_TIMEOUT + d"
proof -
  note n = assms(2)
  define t1 where "t1 = max (ev_now s) t + d"
  let ?s1 = "s\<lparr>ev_now := t1\<rparr>"
  have t1: "ev_now s \<le> t1" "t \<le> t1" "t1 \<le> ev_now s + PEER_TIMEOUT + d" "t < t1"
    using assms(3) n by (auto simp: t1_def node_at_def PEER_TIMEOUT_def)
  have n1: "node_at en fd ai i now a t ?s1"
    using n t1 by (auto simp: node_at_def)
  then obtain p where p: "sk_heap ?s1 a = Some p" "a \<in> set (sk_peers ?s1)" "armed en (dp_stale_timer p) t"
    by (auto simp: node_at_def)
  obtain e where "e \<in> set (sk_sent s)" using n by (cases "sk_sent s") (auto simp: node_at_def)
  with n have "now + PEER_TIMEOUT \<le> t" by (force simp: node_at_def sent_ok_def)
  with t1(4) have late: "now + PEER_TIMEOUT < ev_now ?s1" by simp
  have le: "t \<le> ev_now ?s1" using t1(2) by simp
  obtain s' t' where to:
      "on_peer_timeout en 0 (?s1\<lparr>sk_heap := (sk_heap ?s1)(a \<mapsto> p\<lparr>dp_stale_timer := ev_expire (en_ev en) (dp_stale_timer p)\<rparr>)\<rparr>) a = Some s'"
      "node_at en fd ai i now a t' s'" "ev_now s' = ev_now ?s1"
      "length (sk_sent s') = (if now + PEER_TIMEOUT < ev_now ?s1 then Suc (length (sk_sent ?s1)) else length (sk_sent ?s1))"
    by (rule on_peer_timeout_node [OF assms(1) n1 p(1) le, of 0])
  from to(3,4) late have "ev_now s' = t1" "length (sk_sent s') = Suc (length (sk_sent s))" by simp_all
  note s' = to(1,2) this
  have "dht_step en s (Tick t1) (Some ?s1)" using t1(1) by (rule step_tick)
  moreover have "dht_step en ?s1 (Timeout a 0) (Some s')"
    using step_timeout [OF p(2,1) armed_due [OF assms(1) p(3)] le, of 0] s'(1) by simp
  ultimately have "dht_quiet en s s'"
    by (blast intro: dht_quiet.intros)
  with s'(2-4) t1(3) show ?thesis by auto
qed

text \<open>C16. The node never stops pinging: from every reachable state, and for every \<open>k\<close>, the loop has a run in which it
  receives nothing, only time passes and timers are called, and which sends \<open>k\<close> datagrams more within \<open>k\<close> times
  anything longer than \<open>PEER_TIMEOUT\<close>.\<close>

theorem dht_keeps_pinging:
  assumes "env_ok en" "dht_main en h now r argv = Some (Running s0)" "dht_reach en s0 s" "0 < d"
  shows "\<exists>s'. dht_quiet en s s' \<and> length (sk_sent s') = length (sk_sent s) + k \<and>
    ev_now s' \<le> ev_now s + of_nat k * (PEER_TIMEOUT + d)"
proof -
  obtain a fd ai i where m: "node_at en fd ai i now a (now + PEER_TIMEOUT) s0"
    by (rule dht_main_node [OF assms(1,2)])
  obtain t where n: "node_at en fd ai i now a t s"
    using dht_reach_node [OF assms(1) _ assms(3)] m by blast
  have "\<exists>s' t'. dht_quiet en s s' \<and> node_at en fd ai i now a t' s' \<and> length (sk_sent s') = length (sk_sent s) + k \<and>
    ev_now s' \<le> ev_now s + of_nat k * (PEER_TIMEOUT + d)"
  proof (induction k)
    case 0
    with n show ?case by (intro exI [of _ s] exI [of _ t]) (simp add: quiet_start)
  next
    case (Suc k)
    then obtain s1 t1 where s1: "dht_quiet en s s1" "node_at en fd ai i now a t1 s1" "length (sk_sent s1) = length (sk_sent s) + k"
        "ev_now s1 \<le> ev_now s + of_nat k * (PEER_TIMEOUT + d)" by blast
    from dht_next_ping [OF assms(1) s1(2) assms(4)] obtain s2 t2 where
      s2: "dht_quiet en s1 s2" "node_at en fd ai i now a t2 s2" "length (sk_sent s2) = Suc (length (sk_sent s1))"
        "ev_now s2 \<le> ev_now s1 + PEER_TIMEOUT + d" by blast
    have "of_nat (Suc k) * (PEER_TIMEOUT + d) = of_nat k * (PEER_TIMEOUT + d) + PEER_TIMEOUT + d"
      by (simp add: algebra_simps)
    with s1 s2 dht_quiet_trans [OF s2(1) s1(1)] show ?case
      by (intro exI [of _ s2] exI [of _ t2]) simp
  qed
  then show ?thesis by blast
qed

theorem dht_keeps_pinging_witness:
  "\<exists>s s'. dht_main (env_example (Some 1)) Map.empty 0 58 [[], [104], [53]] = Some (Running s) \<and>
     dht_quiet (env_example (Some 1)) s s' \<and> length (sk_sent s') = length (sk_sent s) + 3"
proof -
  obtain s where s: "dht_main (env_example (Some 1)) Map.empty 0 58 [[], [104], [53]] = Some (Running s)"
    using main_example by blast
  from dht_keeps_pinging [OF env_example_ok s reach_start, of 1 3] s show ?thesis by auto
qed

text \<open>C27. The only undefined step of the loop is \<open>sock_cb\<close> after a failed \<open>recvfrom\<close>: it warns and then prints -1
  bytes of its buffer. No datagram, timer or delay makes a step undefined.\<close>

theorem dht_undefined_iff_recv_fails:
  assumes "env_ok en" "dht_main en h now r argv = Some (Running s0)" "dht_reach en s0 s"
  shows "dht_step en s ev None \<longleftrightarrow> (\<exists>buf. length buf = 2048 \<and> ev = Readable buf None)"
proof
  obtain a fd ai i where m: "node_at en fd ai i now a (now + PEER_TIMEOUT) s0"
    by (rule dht_main_node [OF assms(1,2)])
  obtain t where n: "node_at en fd ai i now a t s"
    using dht_reach_node [OF assms(1) _ assms(3)] m by blast
  assume step: "dht_step en s ev None"
  from dht_step_node [OF assms(1) n step] obtain buf where "ev = Readable buf None" by blast
  with step show "\<exists>buf. length buf = 2048 \<and> ev = Readable buf None" by (auto elim: dht_step_readableE)
next
  assume "\<exists>buf. length buf = 2048 \<and> ev = Readable buf None"
  then obtain buf where b: "length buf = 2048" "ev = Readable buf None" by blast
  with step_readable [OF b(1), of en s None] sock_cb_failed [OF assms(1) b(1)] show "dht_step en s ev None" by simp
qed

theorem dht_undefined_iff_recv_fails_witness:
  "\<exists>s. dht_main (env_example (Some 1)) Map.empty 0 58 [[], [104], [53]] = Some (Running s) \<and>
     dht_step (env_example (Some 1)) s (Readable (replicate 2048 0) None) None \<and>
     \<not> dht_step (env_example (Some 1)) s (Readable (replicate 2048 0) (Some [])) None"
proof -
  obtain s where s: "dht_main (env_example (Some 1)) Map.empty 0 58 [[], [104], [53]] = Some (Running s)"
    using main_example by blast
  with dht_undefined_iff_recv_fails [OF env_example_ok s reach_start] show ?thesis by auto
qed

text \<open>C17. How often the node pings: in any run, after the ping of the start there is at most one for every
  \<open>PEER_TIMEOUT\<close> that has passed; and when the loop calls timers at most \<open>L\<close> after they are due, there is at
  least one for every \<open>PEER_TIMEOUT + L\<close>.\<close>

theorem dht_ping_rate:
  assumes "env_ok en" "dht_main en h now r argv = Some (Running s0)" "dht_reach en s0 s"
  shows "of_nat (length (sk_sent s) - 1) * PEER_TIMEOUT \<le> ev_now s - now \<and>
    (\<forall>L. 0 \<le> L \<longrightarrow> dht_punctual en L s0 s \<longrightarrow> ev_now s - now \<le> of_nat (length (sk_sent s)) * (PEER_TIMEOUT + L))"
proof -
  obtain a fd ai i where m: "node_at en fd ai i now a (now + PEER_TIMEOUT) s0" "ev_now s0 = now" "length (sk_sent s0) = 1"
    by (rule dht_main_node [OF assms(1,2)])
  then have "last (sk_sent s0) \<in> set (sk_sent s0)" by (metis last_in_set length_0_conv zero_neq_one)
  then have t0: "sn_time (last (sk_sent s0)) = now" using m(1) unfolding node_at_def sent_ok_def by fastforce
  obtain t where n: "node_at en fd ai i now a t s"
    using dht_reach_node [OF assms(1) _ assms(3)] m(1) by blast
  then have s: "sent_ok fd (ai_addr ai) i now (sk_sent s)" "sk_sent s \<noteq> []" "t \<le> ev_now s + PEER_TIMEOUT"
      "sn_time (last (sk_sent s)) + PEER_TIMEOUT \<le> t"
    by (auto simp: node_at_def)
  have "of_nat (length (sk_sent s) - 1) * PEER_TIMEOUT \<le> ev_now s - now"
    using sent_gaps [OF s(1,2)] s(3,4) by simp
  moreover have "ev_now s - now \<le> of_nat (length (sk_sent s)) * (PEER_TIMEOUT + L)"
    if L: "0 \<le> L" "dht_punctual en L s0 s" for L
  proof -
    obtain t where "on_time L now t s" using dht_punctual_on_time [OF assms(1) m t0 L] by blast
    moreover have "of_nat (length (sk_sent s)) * (PEER_TIMEOUT + L) =
        of_nat (length (sk_sent s) - 1) * (PEER_TIMEOUT + L) + PEER_TIMEOUT + L"
      using s(2) by (cases "sk_sent s") (simp_all add: algebra_simps)
    ultimately show ?thesis by (simp add: on_time_def)
  qed
  ultimately show ?thesis by blast
qed

theorem dht_ping_rate_witness:
  "\<exists>s. dht_main (env_example (Some 1)) Map.empty 0 58 [[], [104], [53]] = Some (Running s) \<and>
     of_nat (length (sk_sent s) - 1) * PEER_TIMEOUT \<le> ev_now s - 0 \<and>
     ev_now s - 0 \<le> of_nat (length (sk_sent s)) * (PEER_TIMEOUT + 1)"
proof -
  obtain s where s: "dht_main (env_example (Some 1)) Map.empty 0 58 [[], [104], [53]] = Some (Running s)"
    using main_example by blast
  have "(0 :: rat) \<le> 1" "dht_punctual (env_example (Some 1)) 1 s s" by (simp, rule punctual_start)
  with dht_ping_rate [OF env_example_ok s reach_start] s show ?thesis by blast
qed

text \<open>C15. What another node makes of the datagrams: every datagram a node ever sends, given to \<open>krpc_msg_parse\<close>,
  is a query of kind ping if the random identifier has no NUL byte. Otherwise it never is: depending on where
  the first NUL byte stands, the parser of the other node does not return at all or finds no type.\<close>

theorem dht_datagrams_parsed:
  assumes "env_ok en" "dht_main en h now r argv = Some (Running s0)" "dht_reach en s0 s" "e \<in> set (sk_sent s)"
    "en_urandom en = Some bs" "memeqstr_ok mq"
  shows "krpc_msg_parse mq (sn_data e) msg 0 (of_nat (length (sn_data e))) =
    (let k = length (takeWhile (\<lambda>b. b \<noteq> 0) (take 20 bs)) in
     if 20 \<le> k then Some (Returned (- 1, set_query (msg\<lparr>km_type := KT_QUERY\<rparr>) KQ_PING))
     else if k \<in> {0, 3, 7, 10, 16, 19} then None
     else Some (Returned (- 1, msg\<lparr>km_type := KT_NONE\<rparr>)))"
proof -
  obtain a fd ai i where m: "node_at en fd ai i now a (now + PEER_TIMEOUT) s0"
      "\<exists>bs. en_urandom en = Some bs \<and> i = take 20 bs"
    by (rule dht_main_node [OF assms(1,2)])
  with assms(5) have i: "i = take 20 bs" by simp
  obtain t where n: "node_at en fd ai i now a t s"
    using dht_reach_node [OF assms(1) _ assms(3)] m(1) by blast
  then have data: "sn_data e = ping_bytes i (str ''tt'')" and len: "length i = 20"
    using assms(4) by (auto simp: node_at_def sent_ok_def id_ok_def)
  show ?thesis
  proof (cases "0 \<in> set i")
    case True
    then have "length (takeWhile (\<lambda>b. b \<noteq> 0) i) < 20"
      using takeWhile_shorter [OF True, of "\<lambda>b. b \<noteq> 0"] len by simp
    with ping_NUL_parsed [OF assms(6) len True] show ?thesis
      unfolding data i [symmetric] Let_def resync_def by simp
  next
    case False
    have "20 \<le> length (takeWhile (\<lambda>b. b \<noteq> 0) i)" unfolding no_NUL [OF False] using len by simp
    with ping_parsed [OF assms(6) len False] show ?thesis
      unfolding data i [symmetric] Let_def by (simp only: if_True)
  qed
qed

theorem dht_datagrams_parsed_witness:
  "\<exists>s e. dht_main (env_example (Some 1)) Map.empty 0 58 [[], [104], [53]] = Some (Running s) \<and> e \<in> set (sk_sent s) \<and>
     krpc_msg_parse memeqstr_ref (sn_data e) krpc_msg0 0 (of_nat (length (sn_data e))) =
       Some (Returned (- 1, set_query (krpc_msg0\<lparr>km_type := KT_QUERY\<rparr>) KQ_PING))"
proof -
  obtain s where s: "dht_main (env_example (Some 1)) Map.empty 0 58 [[], [104], [53]] = Some (Running s)"
    using main_example by blast
  obtain a fd ai i where "node_at (env_example (Some 1)) fd ai i 0 a (0 + PEER_TIMEOUT) s"
    by (rule dht_main_node [OF env_example_ok s])
  then obtain e where e: "e \<in> set (sk_sent s)" by (cases "sk_sent s") (auto simp: node_at_def)
  have u: "en_urandom (env_example (Some 1)) = Some (replicate 20 65)" by (simp add: env_example_def)
  have k: "length (takeWhile (\<lambda>b. b \<noteq> 0) (take 20 (replicate 20 (65 :: byte)))) = 20" by simp
  from dht_datagrams_parsed [OF env_example_ok s reach_start e u memeqstr_ref_ok, of krpc_msg0] k s e
  show ?thesis by (auto simp: Let_def)
qed

subsection \<open>The start of the program\<close>

text \<open>What has to succeed before the peer is allocated.\<close>

definition dht_prepared :: "('d, 't) dht_env \<Rightarrow> bytes list \<Rightarrow> bool" where
  "dht_prepared en argv \<longleftrightarrow> length argv = 3 \<and>
     (case en_server_lookup en of
        None \<Rightarrow> False
      | Some local \<Rightarrow> en_socket en (ai_family local) (ai_socktype local) (ai_protocol local) \<noteq> - 1) \<and>
     (case en_urandom en of None \<Rightarrow> False | Some bs \<Rightarrow> 20 \<le> length bs)"

text \<open>C32. How the program starts: without two arguments, without the address, the socket or the random bytes it ends
  with status 1. Then, out of memory, \<open>add_peer\<close> only warns and returns a null pointer that \<open>main\<close> passes to
  \<open>send_ping_to_peer\<close>, so the program is undefined, before the name of the peer is looked up; with memory it ends
  with status 1 when the lookup fails, and otherwise runs with one ping sent to the address found.\<close>

theorem dht_main_outcomes:
  assumes "env_ok en"
  shows "if \<not> dht_prepared en argv then dht_main en h now r argv = Some (Exit 1)
    else if en_malloc en h = None then dht_main en h now r argv = None
    else case en_client_lookup en (argv ! 1) (argv ! 2) of
        None \<Rightarrow> dht_main en h now r argv = Some (Exit 1)
      | Some ai \<Rightarrow> \<exists>s. dht_main en h now r argv = Some (Running s) \<and> ev_now s = now \<and> map sn_addr (sk_sent s) = [ai_addr ai]"
proof (cases "dht_prepared en argv")
  case False
  then show ?thesis
    by (auto simp: dht_main_def dht_prepared_def load_random_id_def Let_def split: option.splits)
next
  case True
  then obtain local bs where p: "length argv = 3" "en_server_lookup en = Some local"
      "en_socket en (ai_family local) (ai_socktype local) (ai_protocol local) \<noteq> - 1"
      "en_urandom en = Some bs" "20 \<le> length bs"
    by (auto simp: dht_prepared_def split: option.splits)
  let ?s0 = "\<lparr>sk_fd = en_socket en (ai_family local) (ai_socktype local) (ai_protocol local), sk_peers = [],
      sk_buf = en_new en, sk_my_id = \<lparr>ni_id = take 20 bs\<rparr>, ev_now = now, sk_heap = h, sk_sent = []\<rparr>"
  have main: "dht_main en h now r argv =
      (case add_peer en ?s0 (argv ! 1) (argv ! 2) of
         Exit n \<Rightarrow> Some (Exit n)
       | Running (None, s) \<Rightarrow> None
       | Running (Some a, s) \<Rightarrow> do { s \<leftarrow> send_ping_to_peer en r s a; Some (Running s) })"
    using p by (simp add: dht_main_def load_random_id_def)
  show ?thesis
  proof (cases "en_malloc en h")
    case None
    with True main show ?thesis by (simp add: add_peer_def)
  next
    case (Some a)
    show ?thesis
    proof (cases "en_client_lookup en (argv ! 1) (argv ! 2)")
      case None
      with True main Some show ?thesis by (simp add: add_peer_def resolve_peer_def)
    next
      case lookup: (Some ai)
      obtain s1 where add: "add_peer en ?s0 (argv ! 1) (argv ! 2) = Running (Some a, s1)"
        using Some lookup by (simp add: add_peer_def resolve_peer_def Let_def)
      obtain q ai' where q: "sk_heap s1 a = Some q" "dp_addr q = Some ai'"
          "en_client_lookup en (argv ! 1) (argv ! 2) = Some ai'" "s1 = ?s0\<lparr>sk_heap := h(a \<mapsto> q), sk_peers := [a]\<rparr>"
        using add by (elim add_peer_node [OF assms, rotated 2]) simp_all
      have "id_ok (sk_my_id s1)" using p(5) q(4) by (simp add: id_ok_def)
      from send_ping_sends [OF assms q(1,2) this, of r] obtain buf where
        "send_ping_to_peer en r s1 a = Some (s1\<lparr>sk_buf := buf, sk_sent := sk_sent s1 @
          [\<lparr>sn_time = ev_now s1, sn_fd = sk_fd s1, sn_data = ping_bytes (ni_id (sk_my_id s1)) (str ''tt''),
            sn_addr = ai_addr ai', sn_result = r\<rparr>]\<rparr>)" by blast
      with True Some lookup main add q(3,4) show ?thesis by simp
    qed
  qed
qed

theorem dht_main_outcomes_witness:
  "dht_main (env_example None) Map.empty 0 58 [[], [104], [53]] = None \<and>
   dht_main (env_example None) Map.empty 0 58 [[]] = Some (Exit 1)"
  using dht_main_outcomes [OF env_example_ok [of None], where argv = "[[], [104], [53]]" and h = Map.empty and now = 0 and r = 58]
    dht_main_outcomes [OF env_example_ok [of None], where argv = "[[]]" and h = Map.empty and now = 0 and r = 58]
  by (simp add: dht_prepared_def env_example_def)

end
