(* ===== verification/Getopt.thy ===== *)
theory Getopt
  imports Main
begin

text \<open>
  The command lines of \<open>main.c\<close>, \<open>unix.c\<close> and \<open>nnode.c\<close>. \<open>getopt\<close> of the C library is modelled for the
  option strings the programs use: clusters of one-letter options, arguments attached or in the next
  word, \<open>--\<close> as the end, and words that are no options passed over (the GNU permutation). An option
  string that starts with a colon reports a missing argument as \<open>:\<close>. The functions of the programs
  give their exit status and the lines they write to \<open>stderr\<close>.
\<close>

subsection \<open>getopt\<close>

record opt =
  op_char :: char \<comment> \<open>what \<open>getopt\<close> returns\<close>
  op_arg :: "string option" \<comment> \<open>\<open>optarg\<close>\<close>
  op_opt :: char \<comment> \<open>\<open>optopt\<close>\<close>

text \<open>Whether a letter is an option, and whether it takes an argument.\<close>

fun opt_kind :: "string \<Rightarrow> char \<Rightarrow> bool option" where
  "opt_kind [] c = None"
| "opt_kind (o1 # os) c =
     (if c = CHR '':'' \<or> c = CHR '';'' then None
      else if o1 = c then Some (\<exists>os'. os = CHR '':'' # os')
      else opt_kind os c)"

definition missing :: "string \<Rightarrow> char" where
  "missing os = (if os \<noteq> [] \<and> hd os = CHR '':'' then CHR '':'' else CHR ''?'')"

fun getopt_word :: "string \<Rightarrow> string \<Rightarrow> string list \<Rightarrow> opt list \<times> string list" where
  "getopt_word os [] argv = ([], argv)"
| "getopt_word os (c # cs) argv =
     (case opt_kind os c of
        None \<Rightarrow>
          (let (ops, argv) = getopt_word os cs argv in (\<lparr>op_char = CHR ''?'', op_arg = None, op_opt = c\<rparr> # ops, argv))
      | Some False \<Rightarrow>
          (let (ops, argv) = getopt_word os cs argv in (\<lparr>op_char = c, op_arg = None, op_opt = c\<rparr> # ops, argv))
      | Some True \<Rightarrow>
          if cs \<noteq> [] then ([\<lparr>op_char = c, op_arg = Some cs, op_opt = c\<rparr>], argv)
          else (case argv of
              [] \<Rightarrow> ([\<lparr>op_char = missing os, op_arg = None, op_opt = c\<rparr>], [])
            | a # argv \<Rightarrow> ([\<lparr>op_char = c, op_arg = Some a, op_opt = c\<rparr>], argv)))"

lemma getopt_word_shorter: "length (snd (getopt_word os w argv)) \<le> length argv"
  by (induction os w argv rule: getopt_word.induct)
     (auto simp: case_prod_unfold Let_def split: option.splits bool.splits list.splits)

function getopt :: "string \<Rightarrow> string list \<Rightarrow> opt list" where
  "getopt os [] = []"
| "getopt os (a # argv) =
     (if a = ''--'' then []
      else if length a \<ge> 2 \<and> hd a = CHR ''-'' then
        (let (ops, argv) = getopt_word os (tl a) argv in ops @ getopt os argv)
      else getopt os argv)"
  by pat_completeness auto
termination
proof (relation "measure (\<lambda>(os, argv). length argv)", goal_cases)
  case (2 os a argv x ops argv')
  then show ?case using getopt_word_shorter [of os "tl a" argv] by (simp add: prod_eq_iff)
qed auto

text \<open>Every result is an option letter, a question mark or the mark of a missing argument.\<close>

definition opt_ok :: "string \<Rightarrow> opt \<Rightarrow> bool" where
  "opt_ok os op \<longleftrightarrow> op_char op = CHR ''?'' \<or> op_char op = missing os \<or>
     opt_kind os (op_char op) = Some (op_arg op \<noteq> None)"

lemma getopt_word_chars: "list_all (opt_ok os) (fst (getopt_word os w argv))"
proof (induction os w argv rule: getopt_word.induct)
  case (2 os c cs argv)
  obtain ops rest where g: "getopt_word os cs argv = (ops, rest)" by (cases "getopt_word os cs argv")
  consider "opt_kind os c = None" | "opt_kind os c = Some False" | "opt_kind os c = Some True" "cs \<noteq> []"
    | "opt_kind os c = Some True" "cs = []" "argv = []"
    | a rest' where "opt_kind os c = Some True" "cs = []" "argv = a # rest'"
    by (cases "opt_kind os c"; cases argv) auto
  then show ?case
  proof cases
    case 1
    with "2.IH"(1) g show ?thesis by (simp add: opt_ok_def)
  next
    case 2
    with "2.IH"(2) [OF 2] g show ?thesis by (simp add: opt_ok_def)
  qed (simp_all add: opt_ok_def)
qed simp

lemma getopt_ok: "list_all (opt_ok os) (getopt os argv)"
proof (induction os argv rule: getopt.induct)
  case (2 os a argv)
  obtain ops rest where g: "getopt_word os (tl a) argv = (ops, rest)" by (cases "getopt_word os (tl a) argv")
  with getopt_word_chars [of os "tl a" argv] "2.IH" show ?case by simp
qed simp

lemma getopt_chars:
  "op \<in> set (getopt os argv) \<Longrightarrow>
     op_char op = CHR ''?'' \<or> op_char op = missing os \<or> opt_kind os (op_char op) = Some (op_arg op \<noteq> None)"
  using getopt_ok [of os argv] by (simp add: list_all_iff opt_ok_def)

subsection \<open>Diagnostics\<close>

text \<open>The arguments of \<open>vfprintf\<close> and the text it writes, for the conversions the programs use; \<open>None\<close> where a
  conversion has no argument of its type.\<close>

datatype farg = Str string | Chr char

fun vfprintf :: "string \<Rightarrow> farg list \<Rightarrow> string option" where
  "vfprintf [] args = Some []"
| "vfprintf (c # fmt) args =
     (if c \<noteq> CHR ''%'' then map_option ((#) c) (vfprintf fmt args)
      else case fmt of
        [] \<Rightarrow> None
      | d # fmt \<Rightarrow>
          (case args of
             [] \<Rightarrow> None
           | Str s # args \<Rightarrow> if d = CHR ''s'' then map_option ((@) s) (vfprintf fmt args) else None
           | Chr x # args \<Rightarrow> if d = CHR ''c'' then map_option ((#) x) (vfprintf fmt args) else None))"

text \<open>\<open>warn\<close> of \<open>main.c\<close> and \<open>unix.c\<close>: its result, the number of characters, and the text.\<close>

definition warn :: "string \<Rightarrow> farg list \<Rightarrow> (int \<times> string) option" where
  "warn fmt va = map_option (\<lambda>s. (int (length s), s)) (vfprintf fmt va)"

abbreviation nl :: string where "nl \<equiv> [CHR 0x0A]"
abbreviation tab :: string where "tab \<equiv> [CHR 0x09]"

subsection \<open>main.c\<close>

definition optstr :: string where
  "optstr = '':p:f:l:''"

text \<open>\<open>usage\<close>, which \<open>main\<close> never calls.\<close>

definition main_usage :: "string \<Rightarrow> (int \<times> string) option" where
  "main_usage pname = warn (
     ''usage: %s'' @ tab @ ''[options]'' @ nl @
     tab @ ''-h'' @ tab @ tab @ ''show help'' @ nl @
     tab @ ''-f <cfgfile>'' @ tab @ ''cfg file path'' @ nl @
     tab @ ''-l <local>'' @ tab @ ''where to listen'' @ nl @
     tab @ ''-p <peer>'' @ tab @ ''an initial peer to connect to.'' @ nl @
     nl @
     tab @ tab @ tab @ ''ipv4 - ip:port,   ip, host, host:port'' @ nl @
     tab @ tab @ tab @ ''ipv6 - [ip]:port, ip, host, host:port'' @ nl) [Str pname]"

text \<open>\<open>warn\<close> writes its text to \<open>stderr\<close>, here without the newline; \<open>optarg\<close> is set where an option has an argument.\<close>

definition optarg :: "opt \<Rightarrow> string" where
  "optarg op = (case op_arg op of None \<Rightarrow> [] | Some a \<Rightarrow> a)"

definition warn_missing :: "opt \<Rightarrow> string" where
  "warn_missing op = ''option '' @ [CHR 0x27, CHR ''-'', op_opt op, CHR 0x27] @ '' requires an argument''"

definition warn_unknown :: "opt \<Rightarrow> string" where
  "warn_unknown op = ''option '' @ [CHR 0x27, CHR ''-'', op_opt op, CHR 0x27] @ '' is unrecognized''"

text \<open>The loop over the options: the exit status and the lines.\<close>

fun main_loop :: "opt list \<Rightarrow> int \<times> string list" where
  "main_loop [] = (0, [])"
| "main_loop (op # ops) =
     (let c = op_char op; (r, out) = main_loop ops in
      if c = CHR ''p'' then (r, (''need to add peer-str to list: '' @ optarg op) # out)
      else if c = CHR ''l'' then (r, (''add this to listen list: '' @ optarg op) # out)
      else if c = CHR ''f'' then (r, (''config file path: '' @ optarg op) # out)
      else if c = CHR '':'' then (r, warn_missing op # out)
      else if c = CHR ''?'' then (r, warn_unknown op # out)
      else (- 1, [''opt: '' @ [c]]))"

definition main_main :: "string list \<Rightarrow> int \<times> string list" where
  "main_main args = main_loop (getopt optstr args)"

text \<open>\<open>peer_str_to_addr\<close>: not written yet.\<close>

record peer_addr =
  pa_host :: string
  pa_port :: nat

definition peer_str_to_addr :: "string \<Rightarrow> peer_addr \<Rightarrow> int \<times> peer_addr" where
  "peer_str_to_addr in_str pa = (- 1, pa)"

text \<open>\<open>peer_thread\<close>: its argument is a structure without members, its body is empty.\<close>

datatype peer_args = Peer_args

definition peer_thread :: "peer_args \<Rightarrow> peer_args option" where
  "peer_thread pa_v = None"

subsection \<open>unix.c\<close>

datatype ctrl_args = Ctrl_args

definition ctrl_thread :: "ctrl_args \<Rightarrow> ctrl_args option" where
  "ctrl_thread ca_v = None"

definition unix_usage :: "string \<Rightarrow> (int \<times> string) option" where
  "unix_usage pname = warn (
     ''usage: %s'' @ tab @ ''[options]'' @ nl @
     tab @ ''-h'' @ tab @ tab @ ''show help'' @ nl @
     tab @ ''-S <path>'' @ tab @ ''location to place control socket'' @ nl) [Str pname]"

text \<open>The status, the lines, and how many control threads were spawned.\<close>

fun unix_loop :: "opt list \<Rightarrow> int \<times> string list \<times> nat" where
  "unix_loop [] = (0, [], 0)"
| "unix_loop (op # ops) =
     (let c = op_char op; (r, out, n) = unix_loop ops in
      if c = CHR ''S'' then (r, ''spawning ctrl listener'' # out, n + 1)
      else if c = CHR '':'' then (r, warn_missing op # out, n)
      else if c = CHR ''?'' then (r, warn_unknown op # out, n)
      else (- 1, [''opt: '' @ [c]], 0))"

definition unix_main :: "string list \<Rightarrow> int \<times> string list \<times> nat" where
  "unix_main args = unix_loop (getopt optstr args)"

subsection \<open>nnode.c\<close>

definition nnode_optstring :: string where
  "nnode_optstring = '':hc:''"

definition nnode_usage :: "string \<Rightarrow> string" where
  "nnode_usage prog = ''usage: '' @ prog @ '' [options]'' @ [CHR 0x0A] @ ''options:'' @ [CHR 0x0A] @
     [CHR 0x09] @ ''-c<config file>'' @ [CHR 0x09, CHR 0x09] @ ''specify a config file'' @ [CHR 0x0A]"

definition prog_name :: "string list \<Rightarrow> string" where
  "prog_name argv = (if argv = [] then ''nnode'' else hd argv)"

text \<open>What the loop leaves: \<open>None\<close> when it met \<open>-h\<close>, otherwise the last configuration file and the count of
  errors; and the lines it wrote to \<open>stderr\<close>.\<close>

fun nnode_options :: "opt list \<Rightarrow> string option \<Rightarrow> nat \<Rightarrow> (string option \<times> nat) option \<times> string list" where
  "nnode_options [] cfg_file errflg = (Some (cfg_file, errflg), [])"
| "nnode_options (op # ops) cfg_file errflg =
     (let c = op_char op in
      if c = CHR ''h'' then (None, [])
      else if c = CHR ''c'' then nnode_options ops (op_arg op) errflg
      else (let (r, err) = nnode_options ops cfg_file (errflg + 1) in
        (r, (if c = CHR '':'' then ''option -'' @ [op_opt op] @ '' requires an operand''
             else if c = CHR ''?'' then ''unrecognized option -'' @ [op_opt op]
             else ''what'') # err)))"

text \<open>The configuration file to load, or \<open>None\<close> where \<open>main\<close> prints its usage and returns -1; the lines on
  \<open>stderr\<close> and the text on \<open>stdout\<close>.\<close>

definition nnode_args :: "string list \<Rightarrow> string option \<times> string list \<times> string" where
  "nnode_args argv =
     (let (r, err) = nnode_options (getopt nnode_optstring (tl argv)) None 0 in
      case r of
        None \<Rightarrow> (None, err, nnode_usage (prog_name argv))
      | Some (cfg_file, errflg) \<Rightarrow>
          (let err = err @ (if cfg_file = None then [''no config file specified.''] else []);
               errflg = errflg + (if cfg_file = None then 1 else 0) in
           if errflg > 0 then (None, err, nnode_usage (prog_name argv))
           else (cfg_file, err, [])))"

subsection \<open>What the loops do\<close>

lemma optstr_kind: "opt_kind optstr c = Some b \<longleftrightarrow> b \<and> c \<in> {CHR ''p'', CHR ''f'', CHR ''l''}"
  by (auto simp: optstr_def)

lemma optstr_char:
  assumes "op \<in> set (getopt optstr args)"
  shows "op_char op \<in> {CHR ''?'', CHR '':''} \<or> op_char op \<in> {CHR ''p'', CHR ''f'', CHR ''l''} \<and> op_arg op \<noteq> None"
proof -
  have "missing optstr = CHR '':''" by (simp add: missing_def optstr_def)
  with getopt_chars [OF assms] show ?thesis by (auto simp: optstr_kind)
qed

text \<open>The lines of the loops are the texts \<open>warn\<close> writes, less their newline.\<close>

lemma warn_lines:
  "map_option snd (warn (''option '' @ [CHR 0x27] @ ''-%c'' @ [CHR 0x27] @ '' requires an argument'' @ nl) [Chr (op_opt op)]) =
     Some (warn_missing op @ nl)"
  "map_option snd (warn (''option '' @ [CHR 0x27] @ ''-%c'' @ [CHR 0x27] @ '' is unrecognized'' @ nl) [Chr (op_opt op)]) =
     Some (warn_unknown op @ nl)"
  "map_option snd (warn (''need to add peer-str to list: %s'' @ nl) [Str (optarg op)]) =
     Some (''need to add peer-str to list: '' @ optarg op @ nl)"
  "map_option snd (warn (''add this to listen list: %s'' @ nl) [Str (optarg op)]) =
     Some (''add this to listen list: '' @ optarg op @ nl)"
  "map_option snd (warn (''config file path: %s'' @ nl) [Str (optarg op)]) =
     Some (''config file path: '' @ optarg op @ nl)"
  "map_option snd (warn (''opt: %c'' @ nl) [Chr c]) = Some (''opt: '' @ [c] @ nl)"
  by (simp_all add: warn_def warn_missing_def warn_unknown_def)

lemma main_loop_zero:
  "(\<forall>op \<in> set ops. op_char op \<in> {CHR ''?'', CHR '':'', CHR ''p'', CHR ''f'', CHR ''l''}) \<Longrightarrow>
     fst (main_loop ops) = 0 \<and> length (snd (main_loop ops)) = length ops"
  by (induction ops) (auto simp: Let_def case_prod_unfold)

lemma unix_loop_status:
  "(\<forall>op \<in> set ops. op_char op \<noteq> CHR ''S'') \<Longrightarrow>
     snd (snd (unix_loop ops)) = 0 \<and>
     fst (unix_loop ops) = (if \<exists>op \<in> set ops. op_char op \<notin> {CHR ''?'', CHR '':''} then - 1 else 0)"
  by (induction ops) (auto simp: Let_def case_prod_unfold)

lemma nnode_kind:
  "opt_kind nnode_optstring c = Some b \<longleftrightarrow> b \<and> c = CHR ''c'' \<or> \<not> b \<and> c = CHR ''h''"
  by (auto simp: nnode_optstring_def)

lemma nnode_char:
  assumes "op \<in> set (getopt nnode_optstring args)"
  shows "op_char op \<in> {CHR ''?'', CHR '':'', CHR ''h''} \<or> op_char op = CHR ''c'' \<and> op_arg op \<noteq> None"
proof -
  have "missing nnode_optstring = CHR '':''" by (simp add: missing_def nnode_optstring_def)
  with getopt_chars [OF assms] show ?thesis by (auto simp: nnode_kind)
qed

lemma nnode_options_valid:
  "(\<forall>op \<in> set ops. op_char op = CHR ''c'' \<and> op_arg op \<noteq> None) \<Longrightarrow>
     nnode_options ops f n = (Some (if ops = [] then f else op_arg (last ops), n), [])"
  by (induction ops arbitrary: f) auto

lemma nnode_options_errors:
  "fst (nnode_options ops f n) = Some (g, m) \<Longrightarrow> n \<le> m \<and> (m = n \<longrightarrow> (\<forall>op \<in> set ops. op_char op = CHR ''c''))"
proof (induction ops arbitrary: f n)
  case (Cons op ops)
  show ?case
  proof (cases "op_char op = CHR ''c''")
    case True
    with Cons.prems Cons.IH [of "op_arg op" n] show ?thesis by simp
  next
    case False
    with Cons.prems have "fst (nnode_options ops f (n + 1)) = Some (g, m)"
      by (simp add: Let_def case_prod_unfold split: if_splits)
    with Cons.IH [of f "n + 1"] show ?thesis by simp
  qed
qed simp

text \<open>The program goes on exactly when every option is \<open>-c\<close> with its file, and there is one; the last counts.\<close>

lemma nnode_args_iff:
  "fst (nnode_args argv) = Some f \<longleftrightarrow>
     (let ops = getopt nnode_optstring (tl argv) in
      ops \<noteq> [] \<and> (\<forall>op \<in> set ops. op_char op = CHR ''c'') \<and> op_arg (last ops) = Some f)"
proof (cases "\<forall>op \<in> set (getopt nnode_optstring (tl argv)). op_char op = CHR ''c''")
  case True
  with nnode_char have "\<forall>op \<in> set (getopt nnode_optstring (tl argv)). op_char op = CHR ''c'' \<and> op_arg op \<noteq> None"
    by fastforce
  from nnode_options_valid [OF this, of None 0] True show ?thesis
    by (auto simp: nnode_args_def Let_def)
next
  case False
  obtain r err where r: "nnode_options (getopt nnode_optstring (tl argv)) None 0 = (r, err)" by fastforce
  have "fst (nnode_args argv) = None"
  proof (cases r)
    case (Some ce)
    obtain c e where ce: "ce = (c, e)" by (cases ce)
    with nnode_options_errors [of "getopt nnode_optstring (tl argv)" None 0 c e] r Some False have "e \<noteq> 0" by auto
    with r Some ce show ?thesis by (simp add: nnode_args_def Let_def)
  qed (use r in \<open>simp add: nnode_args_def\<close>)
  with False show ?thesis by (auto simp: Let_def)
qed

lemma nnode_args_usage: "fst (nnode_args argv) = None \<Longrightarrow> snd (snd (nnode_args argv)) = nnode_usage (prog_name argv)"
  by (auto simp: nnode_args_def Let_def case_prod_unfold split: option.splits if_splits)

lemma nnode_args_silent: "fst (nnode_args argv) = Some f \<Longrightarrow> snd (nnode_args argv) = ([], [])"
proof -
  assume f: "fst (nnode_args argv) = Some f"
  then have "\<forall>op \<in> set (getopt nnode_optstring (tl argv)). op_char op = CHR ''c''"
    by (simp add: nnode_args_iff Let_def)
  with nnode_char have "\<forall>op \<in> set (getopt nnode_optstring (tl argv)). op_char op = CHR ''c'' \<and> op_arg op \<noteq> None"
    by fastforce
  from nnode_options_valid [OF this, of None 0] f show ?thesis
    by (auto simp: nnode_args_def Let_def split: if_splits)
qed

subsection \<open>The properties\<close>

lemma main_main_returns_zero:
  "fst (main_main args) = 0 \<and> length (snd (main_main args)) = length (getopt optstr args)"
proof -
  have "\<forall>op \<in> set (getopt optstr args). op_char op \<in> {CHR ''?'', CHR '':'', CHR ''p'', CHR ''f'', CHR ''l''}"
    using optstr_char [of _ args] by blast
  from main_loop_zero [OF this] show ?thesis
    by (simp add: main_main_def)
qed

lemma unix_main_never_spawns:
  "snd (snd (unix_main args)) = 0 \<and>
   fst (unix_main args) =
     (if \<exists>op \<in> set (getopt optstr args). op_char op \<in> {CHR ''p'', CHR ''f'', CHR ''l''} then - 1 else 0)"
proof -
  have c: "op_char op \<in> {CHR ''?'', CHR '':''} \<or> op_char op \<in> {CHR ''p'', CHR ''f'', CHR ''l''}"
    if "op \<in> set (getopt optstr args)" for op
    using optstr_char [OF that] by blast
  then have "\<forall>op \<in> set (getopt optstr args). op_char op \<noteq> CHR ''S''" by force
  note s = unix_loop_status [OF this]
  have "(\<exists>op \<in> set (getopt optstr args). op_char op \<notin> {CHR ''?'', CHR '':''}) \<longleftrightarrow>
      (\<exists>op \<in> set (getopt optstr args). op_char op \<in> {CHR ''p'', CHR ''f'', CHR ''l''})"
    by (intro bex_cong refl) (use c in auto)
  with s show ?thesis by (simp add: unix_main_def)
qed

text \<open>C39. The command lines of \<open>main.c\<close> and \<open>unix.c\<close>, which have the same option string. \<open>main.c\<close> accepts every
  command line: it returns 0 and writes one line for every result of \<open>getopt\<close>, and its \<open>-h\<close>, which the usage
  text announces, is unrecognized. \<open>unix.c\<close>, whose options are others, never spawns a control thread (\<open>-S\<close> is
  unrecognized), and returns -1 exactly when an option that \<open>getopt\<close> accepts is given.\<close>

theorem command_lines_of_main_and_unix:
  "fst (main_main args) = 0 \<and> length (snd (main_main args)) = length (getopt optstr args) \<and>
   main_main [''-h''] = (0, [''option '' @ [CHR 0x27] @ ''-h'' @ [CHR 0x27] @ '' is unrecognized'']) \<and>
   snd (snd (unix_main args)) = 0 \<and>
   fst (unix_main args) =
     (if \<exists>op \<in> set (getopt optstr args). op_char op \<in> {CHR ''p'', CHR ''f'', CHR ''l''} then - 1 else 0) \<and>
   unix_main [''-S'', ''sock''] = (0, [''option '' @ [CHR 0x27] @ ''-S'' @ [CHR 0x27] @ '' is unrecognized''], 0)"
  using main_main_returns_zero [of args] unix_main_never_spawns [of args]
  by (simp add: main_main_def unix_main_def) (simp add: optstr_def warn_unknown_def)

end
