(* ===== verification/Nnode.thy ===== *)
theory Nnode
  imports Dht Nodes_Dat Getopt
begin

text \<open>
  The node of \<open>nnode.c\<close> with its configuration, \<open>cfg_json.c\<close>. The JSON library (yajl), \<open>rand\<close>, the sockets
  and libev are arguments. A file is what \<open>fread\<close> delivers, with the end-of-file and error flags of the
  stream. \<open>send_pkt\<close> and \<open>ping_cb\<close> name undeclared variables in the source (\<open>nd\<close>, \<open>buf\<close>); the
  model takes the node that is passed. A result \<open>None\<close> is undefined behaviour.
\<close>

subsection \<open>Configuration (cfg_json.c)\<close>

record kademlia_id =
  kid_bytes :: bytes \<comment> \<open>20 bytes, also read as five dwords\<close>

text \<open>\<open>peers\<close> is written by no function: \<open>None\<close> is a field that has no value yet.\<close>

record list_head =
  lh_prev :: "ptr option"
  lh_next :: "ptr option"

record 'y config =
  cfg_root :: 'y
  cfg_peers :: "list_head option"

text \<open>\<open>yajl_tree_parse\<close> on a text gives a tree, or the message it leaves in \<open>errbuf\<close>; \<open>yajl_tree_get\<close> with the
  path \<open>id\<close> gives a string, if there is one.\<close>

record 'y yajl =
  yajl_tree_parse :: "bytes \<Rightarrow> bytes + 'y"
  yajl_tree_get_id :: "'y \<Rightarrow> bytes option"

record stream =
  fs_data :: bytes
  fs_eof :: bool
  fs_error :: bool

text \<open>The string at the start of an array; \<open>None\<close> is a byte that was never written, or the end of the array.\<close>

fun c_string :: "byte option list \<Rightarrow> bytes option" where
  "c_string [] = None"
| "c_string (None # bs) = None"
| "c_string (Some b # bs) = (if b = 0 then Some [] else map_option ((#) b) (c_string bs))"

definition file_data_size :: nat where
  "file_data_size = 65536"

definition base64_decode :: "bytes \<Rightarrow> bytes \<Rightarrow> int \<times> bytes" where
  "base64_decode dst src = (- 1, dst)"

definition config_get_id :: "'y yajl \<Rightarrow> 'y config \<Rightarrow> kademlia_id \<Rightarrow> int \<times> kademlia_id" where
  "config_get_id y cfg i =
     (case yajl_tree_get_id y (cfg_root cfg) of
        Some id_str \<Rightarrow> (let (r, bs) = base64_decode (kid_bytes i) id_str in (r, i\<lparr>kid_bytes := bs\<rparr>))
      | None \<Rightarrow> (- 1, i))"

text \<open>The status, the tree stored in \<open>cfg\<close> (\<open>None\<close> while it is not set), and the text on \<open>stderr\<close>.
  \<open>fread\<close> overwrites the front of \<open>file_data\<close>, of which only byte 0 was written before.\<close>

definition config_load :: "'y yajl \<Rightarrow> bytes \<Rightarrow> stream option \<Rightarrow> (int \<times> 'y config option \<times> bytes) option" where
  "config_load y config_file fd =
     (let file_data = Some 0 # replicate (file_data_size - 1) None in
      case fd of
        None \<Rightarrow> Some (- 1, None, str ''failed to open file '' @ [34] @ config_file @ [34, 10])
      | Some fd \<Rightarrow>
          (let got = take file_data_size (fs_data fd); rd = length got;
               file_data = map Some got @ drop rd file_data in
           if rd = 0 \<and> \<not> fs_eof fd \<or> fs_error fd
           then Some (- 2, None, str ''error encountered on file read'' @ [10])
           else do {
             text \<leftarrow> c_string file_data;
             Some (case yajl_tree_parse y text of
                 Inl msg \<Rightarrow> (- 3, None, str ''parse error: '' @
                   (if msg \<noteq> [] then str '' '' @ msg else str ''unknown error'') @ [10])
               | Inr tree \<Rightarrow> (0, Some \<lparr>cfg_root = tree, cfg_peers = None\<rparr>, []))
           }))"

text \<open>\<open>get_peers\<close> has an empty body. \<open>config_destroy\<close> frees the tree, an effect of the library on a world \<open>'w\<close>.\<close>

definition get_peers :: "'y config \<Rightarrow> 'w \<Rightarrow> 'w" where
  "get_peers cfg w = w"

definition config_destroy :: "('y \<Rightarrow> 'w \<Rightarrow> 'w) \<Rightarrow> 'y config \<Rightarrow> 'w \<Rightarrow> 'w" where
  "config_destroy yajl_tree_free cfg w = yajl_tree_free (cfg_root cfg) w"

subsection \<open>The identifier (nnode.c)\<close>

type_synonym 'r rand = "'r \<Rightarrow> int \<times> 'r"

fun rand_dwords :: "nat \<Rightarrow> 'r rand \<Rightarrow> 'r \<Rightarrow> u32 list \<times> 'r" where
  "rand_dwords 0 rand r = ([], r)"
| "rand_dwords (Suc n) rand r =
     (let (x, r) = rand r; (ds, r) = rand_dwords n rand r in (of_int x # ds, r))"

definition rand_kademlia_id :: "endian \<Rightarrow> 'r rand \<Rightarrow> 'r \<Rightarrow> kademlia_id \<times> 'r" where
  "rand_kademlia_id e rand r =
     (let (ds, r) = rand_dwords 5 rand r in (\<lparr>kid_bytes = concat (map (bytes_of_u32 e) ds)\<rparr>, r))"

text \<open>\<open>i\<close> is the identifier of the static \<open>_me\<close> before.\<close>

definition setup_me ::
  "'y yajl \<Rightarrow> endian \<Rightarrow> 'r rand \<Rightarrow> 'r \<Rightarrow> 'y config \<Rightarrow> kademlia_id \<Rightarrow> kademlia_id \<times> 'r" where
  "setup_me y e rand r cfg i =
     (let (ret, i) = config_get_id y cfg i in
      if ret < 0 then rand_kademlia_id e rand r else (i, r))"

subsection \<open>Packets (nnode.c)\<close>

record 't node =
  nd_sockfd :: int
  nd_host_str :: bytes
  nd_port_str :: bytes
  nd_ping_watcher :: 't
  nd_id :: kademlia_id
  nd_saddr :: bytes \<comment> \<open>\<open>saddr_len\<close> bytes\<close>

record datagram =
  dg_fd :: int
  dg_data :: bytes
  dg_addr :: bytes

definition VERSION_CURRENT :: byte where "VERSION_CURRENT = 0"
definition PING_TOKEN :: byte where "PING_TOKEN = 17"
definition PONG_TOKEN :: byte where "PONG_TOKEN = 18"

definition send_pkt :: "kademlia_id \<Rightarrow> 't node \<Rightarrow> byte \<Rightarrow> bytes \<Rightarrow> datagram" where
  "send_pkt my_id nd token data =
     \<lparr>dg_fd = nd_sockfd nd, dg_data = [VERSION_CURRENT] @ kid_bytes my_id @ [token], dg_addr = nd_saddr nd\<rparr>"

definition ping_cb :: "kademlia_id \<Rightarrow> 't node \<Rightarrow> datagram" where
  "ping_cb my_id nd = send_pkt my_id nd PING_TOKEN []"

text \<open>\<open>ret\<close> is the result of \<open>sendto\<close>; with the datagram, the texts on \<open>stdout\<close> and \<open>stderr\<close>.\<close>

definition handle_ping :: "kademlia_id \<Rightarrow> 't node \<Rightarrow> bytes \<Rightarrow> int \<Rightarrow> datagram \<times> bytes \<times> bytes" where
  "handle_ping my_id nd pkt ret =
     (send_pkt my_id nd PONG_TOKEN pkt, str ''GOT PING, sending pong.'' @ [10],
      if ret < 0 then str ''PONG send failure.'' else [])"

text \<open>A new node is allocated, its timer started, and -1 returned in every case; nothing else of it is set.\<close>

definition new_node :: "'t ev_ops \<Rightarrow> ((ptr \<Rightarrow> 't option) \<Rightarrow> ptr option) \<Rightarrow> rat \<Rightarrow> (ptr \<Rightarrow> 't option) \<Rightarrow> int \<times> (ptr \<Rightarrow> 't option)" where
  "new_node ev malloc now watchers =
     (case malloc watchers of
        None \<Rightarrow> (- 1, watchers)
      | Some a \<Rightarrow> (- 1, watchers(a \<mapsto> ev_timer_start ev now (ev_timer_set ev (ev_init ev) 1 1))))"

text \<open>The callbacks of the event loop and \<open>process_node\<close> are empty: they change nothing of the world.\<close>

definition interact_cb :: "'w \<Rightarrow> 'w" where
  "interact_cb w = w"

definition process_node :: "'t node \<Rightarrow> bytes \<Rightarrow> 'w \<Rightarrow> 'w" where
  "process_node nd pkt w = w"

definition listen_cb :: "'w \<Rightarrow> 'w" where
  "listen_cb w = w"

text \<open>\<open>main\<close> after the event loop.\<close>

definition nnode_end :: "('y \<Rightarrow> 'w \<Rightarrow> 'w) \<Rightarrow> 'y config \<Rightarrow> 'w \<Rightarrow> int \<times> 'w" where
  "nnode_end yajl_tree_free cfg w = (0, config_destroy yajl_tree_free cfg w)"

subsection \<open>The program (nnode.c)\<close>

text \<open>\<open>socket(AF_INET, SOCK_DGRAM, 0)\<close>, returned as it is.\<close>

definition setup_listener :: "(int \<Rightarrow> int \<Rightarrow> int \<Rightarrow> int) \<Rightarrow> int" where
  "setup_listener socket = (let sock = socket 2 2 0 in if sock < 0 then sock else sock)"

text \<open>The descriptors the loop watches for reading; the callbacks of both are empty functions.\<close>

definition do_event_loop :: "(int \<Rightarrow> int \<Rightarrow> int \<Rightarrow> int) \<Rightarrow> int list" where
  "do_event_loop socket = [0, setup_listener socket]"

text \<open>What the program does, with the texts on \<open>stderr\<close> and \<open>stdout\<close>. \<open>Running\<close> is the state before the
  event loop: the identifier and the descriptors.\<close>

record nnode_result =
  nr_run :: "(kademlia_id \<times> int list) run"
  nr_stderr :: bytes
  nr_stdout :: bytes

definition stderr_lines :: "string list \<Rightarrow> bytes" where
  "stderr_lines ls = concat (map (\<lambda>l. str l @ [10]) ls)"

definition nnode_main ::
  "'y yajl \<Rightarrow> endian \<Rightarrow> 'r rand \<Rightarrow> 'r \<Rightarrow> (int \<Rightarrow> int \<Rightarrow> int \<Rightarrow> int) \<Rightarrow> (string \<Rightarrow> stream option) \<Rightarrow> string list \<Rightarrow>
     nnode_result option" where
  "nnode_main y e rand r socket files argv =
     (let (cfg_file, err, out) = nnode_args argv in
      case cfg_file of
        None \<Rightarrow> Some \<lparr>nr_run = Exit (- 1), nr_stderr = stderr_lines err, nr_stdout = str out\<rparr>
      | Some cfg_file \<Rightarrow> do {
          (ret, cfg, err') \<leftarrow> config_load y (str cfg_file) (files cfg_file);
          let err = stderr_lines err @ err';
          case cfg of
            None \<Rightarrow> Some \<lparr>nr_run = Exit ret, nr_stderr = err, nr_stdout = str out\<rparr>
          | Some cfg \<Rightarrow>
              (let (i, r) = setup_me y e rand r cfg \<lparr>kid_bytes = replicate 20 0\<rparr> in
               Some \<lparr>nr_run = Running (i, do_event_loop socket), nr_stderr = err, nr_stdout = str out\<rparr>)
        })"

subsection \<open>Lemmas\<close>

lemma c_string_written: "c_string (map Some bs @ rest) =
    (if 0 \<in> set bs then Some (takeWhile (\<lambda>b. b \<noteq> 0) bs) else map_option ((@) bs) (c_string rest))"
proof (induction bs)
  case Nil
  show ?case by (cases "c_string rest") simp_all
next
  case (Cons b bs)
  then show ?case by (cases "c_string rest") auto
qed

lemma c_string_replicate: "c_string (replicate n None) = None"
  by (cases n) simp_all

lemma rand_dwords_length: "length (fst (rand_dwords n rand r)) = n"
  by (induction n arbitrary: r) (simp_all add: case_prod_unfold Let_def)

lemma config_get_id_fails: "fst (config_get_id y cfg i) = - 1"
  by (simp add: config_get_id_def base64_decode_def split: option.splits)

end
