(* ===== verification/Nnode_Properties.thy ===== *)
theory Nnode_Properties
  imports Nnode Nodes_Whole
begin

text \<open>
  The properties of \<open>nnode.c\<close> and \<open>cfg_json.c\<close>.
\<close>

subsection \<open>Loading the configuration\<close>

lemma config_load_NUL:
  assumes "\<not> fs_error fd" "fs_data fd = [] \<longrightarrow> fs_eof fd"
  shows "config_load y config_file (Some fd) \<noteq> None \<longleftrightarrow>
    fs_data fd = [] \<or> 0 \<in> set (take file_data_size (fs_data fd))"
proof -
  let ?got = "take file_data_size (fs_data fd)" and ?array = "Some 0 # replicate (file_data_size - 1) None"
  have empty: "?got = [] \<longleftrightarrow> fs_data fd = []" by (simp add: file_data_size_def)
  have ok: "\<not> (length ?got = 0 \<and> \<not> fs_eof fd \<or> fs_error fd)" using assms empty by auto
  have rest: "drop (length ?got) ?array = (if ?got = [] then ?array else replicate (file_data_size - length ?got) None)"
    by (cases ?got) (simp_all add: drop_Cons' file_data_size_def)
  have "c_string (map Some ?got @ drop (length ?got) ?array) \<noteq> None \<longleftrightarrow> ?got = [] \<or> 0 \<in> set ?got"
    unfolding c_string_written rest by (simp add: c_string_replicate)
  moreover have "config_load y config_file (Some fd) \<noteq> None \<longleftrightarrow>
      c_string (map Some ?got @ drop (length ?got) ?array) \<noteq> None"
    unfolding config_load_def Let_def option.case if_not_P [OF ok] bind_eq_None_conv by simp
  ultimately show ?thesis unfolding empty by blast
qed

subsection \<open>The identifier\<close>

lemma rand_dwords_small:
  assumes "\<And>r. 0 \<le> fst (rand r) \<and> fst (rand r) < 2 ^ 31"
  shows "list_all (\<lambda>d. unat d < 2 ^ 31) (fst (rand_dwords n rand r))"
proof (induction n arbitrary: r)
  case (Suc n)
  obtain x r1 where x: "rand r = (x, r1)" by (cases "rand r")
  with assms [of r] have "0 \<le> x" "x < 2 ^ 31" by simp_all
  then have "unat (of_int x :: u32) = nat x" by (simp add: unsigned_of_int take_bit_int_eq_self)
  then have "unat (of_int x :: u32) < 2 ^ 31" using \<open>x < 2 ^ 31\<close> \<open>0 \<le> x\<close> by simp
  with x Suc show ?case by (simp add: case_prod_unfold Let_def)
qed simp

text \<open>The configured identifier is never used: since \<open>base64_decode\<close> is not written and always returns -1, the
  node gets the random identifier whatever the configuration says; since the generator is never seeded,
  two nodes that start get the same one. It is five results of \<open>rand\<close>, so the top bit of each of
  its dwords is 0 where \<open>rand\<close> is below \<open>2 ^ 31\<close>.\<close>

lemma setup_me_ignores_config:
  assumes "\<And>r. 0 \<le> fst (rand r) \<and> fst (rand r) < 2 ^ 31"
  shows "setup_me y e rand r cfg i = rand_kademlia_id e rand r \<and> setup_me y' e rand r cfg' i' = setup_me y e rand r cfg i \<and>
    (\<exists>ds. kid_bytes (fst (setup_me y e rand r cfg i)) = concat (map (bytes_of_u32 e) ds) \<and> length ds = 5 \<and>
       list_all (\<lambda>d. unat d < 2 ^ 31) ds)"
proof -
  have r: "setup_me y e rand r cfg i = rand_kademlia_id e rand r" for y cfg i
    using config_get_id_fails [of y cfg i] by (simp add: setup_me_def case_prod_unfold)
  moreover have "kid_bytes (fst (rand_kademlia_id e rand r)) = concat (map (bytes_of_u32 e) (fst (rand_dwords 5 rand r)))"
    by (simp add: rand_kademlia_id_def case_prod_unfold Let_def)
  ultimately show ?thesis
    using rand_dwords_length [of 5 rand r] rand_dwords_small [of rand 5 r] assms by metis
qed

subsection \<open>Packets\<close>

text \<open>The packets: 22 bytes, the version, the identifier and the token, sent to the address of the node; a pong
  differs from a ping in its last byte only, and nothing of a received packet comes back in it.\<close>

lemma packets_have_one_form:
  assumes "length (kid_bytes my_id) = 20"
  shows "let ping = dg_data (ping_cb my_id nd); pong = dg_data (fst (handle_ping my_id nd pkt ret)) in
    length ping = 22 \<and> length pong = 22 \<and> take 21 ping = take 21 pong \<and>
    ping ! 0 = VERSION_CURRENT \<and> take 20 (drop 1 ping) = kid_bytes my_id \<and> last ping = PING_TOKEN \<and> last pong = PONG_TOKEN \<and>
    PING_TOKEN \<noteq> PONG_TOKEN \<and> dg_addr (ping_cb my_id nd) = nd_saddr nd \<and> dg_addr (fst (handle_ping my_id nd pkt ret)) = nd_saddr nd \<and>
    fst (handle_ping my_id nd pkt ret) = fst (handle_ping my_id nd pkt' ret)"
  using assms by (simp add: ping_cb_def handle_ping_def send_pkt_def PING_TOKEN_def PONG_TOKEN_def nth_append)

subsection \<open>The program\<close>

lemma config_load_text:
  assumes "\<not> fs_error fd" "fs_data fd = [] \<longrightarrow> fs_eof fd" "fs_data fd = [] \<or> 0 \<in> set (take file_data_size (fs_data fd))"
  shows "config_load y config_file (Some fd) =
    Some (case yajl_tree_parse y (takeWhile (\<lambda>b. b \<noteq> 0) (take file_data_size (fs_data fd))) of
        Inl msg \<Rightarrow> (- 3, None, str ''parse error: '' @ (if msg \<noteq> [] then str '' '' @ msg else str ''unknown error'') @ [10])
      | Inr tree \<Rightarrow> (0, Some \<lparr>cfg_root = tree, cfg_peers = None\<rparr>, []))"
proof -
  let ?got = "take file_data_size (fs_data fd)" and ?array = "Some 0 # replicate (file_data_size - 1) None"
  have empty: "?got = [] \<longleftrightarrow> fs_data fd = []" by (simp add: file_data_size_def)
  have ok: "\<not> (length ?got = 0 \<and> \<not> fs_eof fd \<or> fs_error fd)" using assms(1,2) empty by auto
  have "c_string (map Some ?got @ drop (length ?got) ?array) = Some (takeWhile (\<lambda>b. b \<noteq> 0) ?got)"
  proof (cases "?got = []")
    case False
    with assms(3) empty have "0 \<in> set ?got" by blast
    then show ?thesis by (simp only: c_string_written if_True)
  next
    case True
    then show ?thesis unfolding True by simp
  qed
  then show ?thesis
    unfolding config_load_def Let_def option.case if_not_P [OF ok] by (simp only: Option.bind.bind_lunit)
qed

lemma config_load_status:
  "config_load y config_file None = Some (- 1, None, str ''failed to open file '' @ [34] @ config_file @ [34, 10])"
  "fs_data fd = [] \<and> \<not> fs_eof fd \<or> fs_error fd \<Longrightarrow>
     config_load y config_file (Some fd) = Some (- 2, None, str ''error encountered on file read'' @ [10])"
  by (auto simp: config_load_def file_data_size_def)

lemma nnode_main_cases:
  "case fst (nnode_args argv) of
     None \<Rightarrow> \<exists>err. nnode_main y e rand r socket files argv =
       Some \<lparr>nr_run = Exit (- 1), nr_stderr = err, nr_stdout = str (nnode_usage (prog_name argv))\<rparr>
   | Some f \<Rightarrow> op_arg (last (getopt nnode_optstring (tl argv))) = Some f \<and>
       (case files f of
          None \<Rightarrow> map_option nr_run (nnode_main y e rand r socket files argv) = Some (Exit (- 1))
        | Some fd \<Rightarrow>
            let text = takeWhile (\<lambda>b. b \<noteq> 0) (take file_data_size (fs_data fd)) in
            map_option nr_run (nnode_main y e rand r socket files argv) =
              (if fs_data fd = [] \<and> \<not> fs_eof fd \<or> fs_error fd then Some (Exit (- 2))
               else if fs_data fd \<noteq> [] \<and> 0 \<notin> set (take file_data_size (fs_data fd)) then None
               else Some (case yajl_tree_parse y text of
                   Inl msg \<Rightarrow> Exit (- 3)
                 | Inr tree \<Rightarrow> Running (fst (rand_kademlia_id e rand r), [0, socket 2 2 0]))))"
proof (cases "fst (nnode_args argv)")
  case None
  with nnode_args_usage [OF None] show ?thesis
    by (simp add: nnode_main_def case_prod_unfold)
next
  case (Some f)
  have last: "op_arg (last (getopt nnode_optstring (tl argv))) = Some f"
    using Some by (simp add: nnode_args_iff Let_def)
  have args: "nnode_args argv = (Some f, [], [])" using Some nnode_args_silent [OF Some] by (simp add: prod_eq_iff)
  have me: "setup_me y e rand r cfg i = rand_kademlia_id e rand r" for cfg i
    using config_get_id_fails [of y cfg i] by (simp add: setup_me_def case_prod_unfold)
  have main: "nnode_main y e rand r socket files argv = do {
      (ret, cfg, err') \<leftarrow> config_load y (str f) (files f);
      case cfg of
        None \<Rightarrow> Some \<lparr>nr_run = Exit ret, nr_stderr = err', nr_stdout = []\<rparr>
      | Some cfg \<Rightarrow> Some \<lparr>nr_run = Running (fst (rand_kademlia_id e rand r), [0, socket 2 2 0]), nr_stderr = err', nr_stdout = []\<rparr>
    }"
    by (simp add: nnode_main_def args stderr_lines_def me do_event_loop_def setup_listener_def case_prod_unfold Let_def
        cong: option.case_cong)
  show ?thesis
  proof (cases "files f")
    case None
    with last main Some show ?thesis by (simp add: config_load_status(1))
  next
    case fd: (Some fd)
    let ?fail = "fs_data fd = [] \<and> \<not> fs_eof fd \<or> fs_error fd"
    let ?none = "fs_data fd \<noteq> [] \<and> 0 \<notin> set (take file_data_size (fs_data fd))"
    consider "?fail" | "\<not> ?fail" "?none" | "\<not> ?fail" "\<not> ?none" by blast
    then show ?thesis
    proof cases
      case 1
      with fd last main Some config_load_status(2) [OF 1, of y "str f"] show ?thesis by simp
    next
      case 2
      then have a: "\<not> fs_error fd" "fs_data fd = [] \<longrightarrow> fs_eof fd" by blast+
      with 2 config_load_NUL [OF a] have "config_load y (str f) (Some fd) = None" by blast
      with fd last main Some 2 show ?thesis by simp
    next
      case 3
      then have "\<not> fs_error fd" "fs_data fd = [] \<longrightarrow> fs_eof fd"
          "fs_data fd = [] \<or> 0 \<in> set (take file_data_size (fs_data fd))" by blast+
      note load = config_load_text [OF this, of y "str f"]
      show ?thesis
      proof (cases "yajl_tree_parse y (takeWhile (\<lambda>b. b \<noteq> 0) (take file_data_size (fs_data fd)))")
        case (Inl msg)
        with fd last main Some 3 load show ?thesis by simp
      next
        case (Inr tree)
        with fd last main Some 3 load show ?thesis by simp
      qed
    qed
  qed
qed

text \<open>C36. What \<open>nnode\<close> does, on every command line and every file. Unless there are options and every one is \<open>-c\<close> with
  a file, it prints its usage and returns -1; otherwise the last file counts. It returns -1 when that cannot
  be opened, -2 when reading fails, and is undefined when the bytes read have no NUL byte (and the file is not
  empty). The text up to the NUL byte is parsed: it returns -3 when that fails, and otherwise enters its event
  loop with a random identifier, whatever the configuration says.\<close>

theorem nnode_main_outcomes:
  "let ops = getopt nnode_optstring (tl argv); res = nnode_main y e rand r socket files argv in
   if ops = [] \<or> \<not> list_all (\<lambda>op. op_char op = CHR ''c'') ops then
     \<exists>err. res = Some \<lparr>nr_run = Exit (- 1), nr_stderr = err, nr_stdout = str (nnode_usage (prog_name argv))\<rparr>
   else case op_arg (last ops) of
     None \<Rightarrow> False
   | Some f \<Rightarrow>
       (case files f of
          None \<Rightarrow> map_option nr_run res = Some (Exit (- 1))
        | Some fd \<Rightarrow>
            map_option nr_run res =
              (if fs_data fd = [] \<and> \<not> fs_eof fd \<or> fs_error fd then Some (Exit (- 2))
               else if fs_data fd \<noteq> [] \<and> 0 \<notin> set (take file_data_size (fs_data fd)) then None
               else Some (case yajl_tree_parse y (takeWhile (\<lambda>b. b \<noteq> 0) (take file_data_size (fs_data fd))) of
                   Inl msg \<Rightarrow> Exit (- 3)
                 | Inr tree \<Rightarrow> Running (fst (rand_kademlia_id e rand r), [0, socket 2 2 0]))))"
proof -
  let ?ops = "getopt nnode_optstring (tl argv)"
  note cases = nnode_main_cases [where argv = argv and y = y and e = e and rand = rand and r = r and socket = socket and files = files]
  show ?thesis
  proof (cases "?ops = [] \<or> \<not> list_all (\<lambda>op. op_char op = CHR ''c'') ?ops")
    case True
    have "fst (nnode_args argv) = None"
    proof (cases "fst (nnode_args argv)")
      case (Some f)
      with True show ?thesis by (simp add: nnode_args_iff Let_def list_all_iff)
    qed
    with cases True show ?thesis by (simp add: Let_def)
  next
    case False
    then have c: "?ops \<noteq> []" "\<forall>op \<in> set ?ops. op_char op = CHR ''c''" by (simp_all add: list_all_iff)
    then have "op_arg (last ?ops) \<noteq> None" using nnode_char [of "last ?ops" "tl argv"] by simp
    then obtain f where f: "op_arg (last ?ops) = Some f" by blast
    with c have "fst (nnode_args argv) = Some f" by (simp add: nnode_args_iff Let_def)
    with cases False f show ?thesis by (simp add: Let_def cong: option.case_cong)
  qed
qed

text \<open>A file with a NUL byte behind its text starts the program, the same text without it makes it undefined, and
  \<open>-h\<close> ends it.\<close>

theorem nnode_main_outcomes_witness:
  "let y = \<lparr>yajl_tree_parse = (\<lambda>text. if text = [] then Inl [] else Inr text), yajl_tree_get_id = Some\<rparr>;
     run = (\<lambda>data argv. map_option nr_run (nnode_main y Little (\<lambda>r :: int. (7, r + 1)) 0 (\<lambda>d t p. 3)
       (\<lambda>f. if f = ''x'' then Some \<lparr>fs_data = data, fs_eof = True, fs_error = False\<rparr> else None) argv)) in
   run [123, 125, 0] [''nnode'', ''-c'', ''x''] = Some (Running (fst (rand_kademlia_id Little (\<lambda>r :: int. (7, r + 1)) 0), [0, 3])) \<and>
   run [123, 125] [''nnode'', ''-c'', ''x''] = None \<and>
   run [123, 125] [''nnode'', ''-c'', ''y''] = Some (Exit (- 1)) \<and>
   run [123, 125] [''nnode'', ''-h''] = Some (Exit (- 1))"
proof -
  let ?y = "\<lparr>yajl_tree_parse = (\<lambda>text. if text = [] then Inl [] else Inr text), yajl_tree_get_id = Some\<rparr>"
  let ?files = "\<lambda>data f. if f = ''x'' then Some \<lparr>fs_data = data, fs_eof = True, fs_error = False\<rparr> else None"
  have ops: "getopt nnode_optstring [''-c'', ''x''] = [\<lparr>op_char = CHR ''c'', op_arg = Some ''x'', op_opt = CHR ''c''\<rparr>]"
    "getopt nnode_optstring [''-c'', ''y''] = [\<lparr>op_char = CHR ''c'', op_arg = Some ''y'', op_opt = CHR ''c''\<rparr>]"
    "getopt nnode_optstring [''-h''] = [\<lparr>op_char = CHR ''h'', op_arg = None, op_opt = CHR ''h''\<rparr>]"
    by (simp_all add: nnode_optstring_def)
  note p = nnode_main_outcomes [where argv = "''nnode'' # args" and y = ?y and e = Little and rand = "\<lambda>r :: int. (7, r + 1)" and r = 0
    and socket = "\<lambda>d t p. 3" and files = "?files data" for args data]
  note q = p [of "[''-c'', ''x'']" "[123, 125, 0]"] p [of "[''-c'', ''x'']" "[123, 125]"]
    p [of "[''-c'', ''y'']" "[123, 125]"] p [of "[''-h'']" "[123, 125]"]
  show ?thesis
    using q by (auto simp: ops file_data_size_def Let_def simp del: getopt.simps)
qed

end
