(* ===== verification/Kademlia.thy ===== *)
theory Kademlia
  imports Prelude
begin

text \<open>
  The bucket of contacts of \<open>kademlia.c\<close>. The functions \<open>find_contact\<close> and \<open>copy_contact\<close> it calls are in no
  file of the repository: they are arguments; \<open>find_contact\<close> gives the position of the contact in the list,
  \<open>copy_contact\<close> fails without memory. What they promise is stated over the \<open>key\<close> by which a
  contact is found. The types of the fields of a contact are left open, as the source leaves them.
\<close>

subsection \<open>Data\<close>

record ('a, 'p, 'i) kademlia_contact =
  kc_addr :: 'a
  kc_port :: 'p
  kc_id :: 'i

record 'c kademlia_bucket =
  contact_max :: int
  contact_ct :: int
  contacts :: "'c list"

text \<open>The declarations no function uses yet; members without a type in the source have a type variable.\<close>

datatype kademlia_node = Kademlia_node

record ('p, 's, 'n, 'v, 'd) kademlia_ops =
  op_ping :: 'p
  op_store :: 's
  op_find_node :: 'n
  op_find_value :: 'v
  op_delete :: 'd

record ('e, 'f, 'r, 'b) kademlia =
  kad_alpha :: int
  kad_k :: int
  kad_key_size :: int
  kad_tExpire :: 'e
  kad_tRefresh :: 'f
  kad_tReplicate :: 'r
  kad_tRepublish :: 'b

type_synonym 'c find_contact = "'c kademlia_bucket \<Rightarrow> 'c \<Rightarrow> nat option"
type_synonym 'c copy_contact = "'c \<Rightarrow> 'c option"

definition find_ok :: "('c \<Rightarrow> 'k) \<Rightarrow> 'c find_contact \<Rightarrow> bool" where
  "find_ok key find_contact \<longleftrightarrow> (\<forall>b c. case find_contact b c of
      Some i \<Rightarrow> i < length (contacts b) \<and> key (contacts b ! i) = key c
    | None \<Rightarrow> key c \<notin> key ` set (contacts b))"

definition copy_ok :: "'c copy_contact \<Rightarrow> bool" where
  "copy_ok copy_contact \<longleftrightarrow> (\<forall>c c'. copy_contact c = Some c' \<longrightarrow> c' = c)"

subsection \<open>Inserting a contact\<close>

text \<open>\<open>list_del\<close> takes an element out of the list, \<open>list_add\<close> puts one at its head. A contact that is found is
  moved as it is: the data of the argument is not taken over.\<close>

definition kbucket_contact_insert ::
  "'c find_contact \<Rightarrow> 'c copy_contact \<Rightarrow> 'c kademlia_bucket \<Rightarrow> 'c \<Rightarrow> int \<times> 'c kademlia_bucket" where
  "kbucket_contact_insert find_contact copy_contact bucket contact =
     (case find_contact bucket contact of
        Some i \<Rightarrow>
          (let c = contacts bucket ! i; rest = take i (contacts bucket) @ drop (Suc i) (contacts bucket) in
           (0, bucket\<lparr>contacts := c # rest\<rparr>))
      | None \<Rightarrow>
          if contact_ct bucket \<ge> contact_max bucket then (- 1, bucket)
          else (case copy_contact contact of
              None \<Rightarrow> (- 2, bucket)
            | Some c \<Rightarrow> (0, bucket\<lparr>contact_ct := contact_ct bucket + 1, contacts := c # contacts bucket\<rparr>)))"

text \<open>A bucket counts its contacts, holds no more than it may, and none twice.\<close>

definition bucket_ok :: "('c \<Rightarrow> 'k) \<Rightarrow> 'c kademlia_bucket \<Rightarrow> bool" where
  "bucket_ok key b \<longleftrightarrow> contact_ct b = int (length (contacts b)) \<and> contact_ct b \<le> contact_max b \<and>
     distinct (map key (contacts b))"

text \<open>The contract: a list of at most \<open>k\<close> keys, most recently inserted first, that never drops a key.\<close>

definition mru_insert :: "nat \<Rightarrow> 'k \<Rightarrow> 'k list \<Rightarrow> 'k list" where
  "mru_insert k x xs =
     (if x \<in> set xs then x # filter (\<lambda>y. y \<noteq> x) xs else if length xs < k then x # xs else xs)"

lemma move_front:
  assumes "i < length xs" "distinct xs"
  shows "xs ! i # take i xs @ drop (Suc i) xs = xs ! i # filter (\<lambda>y. y \<noteq> xs ! i) xs"
proof -
  let ?x = "xs ! i"
  have xs: "xs = take i xs @ ?x # drop (Suc i) xs" using assms(1) by (rule id_take_nth_drop)
  with assms(2) have "?x \<notin> set (take i xs)" "?x \<notin> set (drop (Suc i) xs)"
    by (metis distinct.simps(2) distinct_append not_distinct_conv_prefix distinct_append disjoint_insert(2) list.simps(15))+
  then have "filter (\<lambda>y. y \<noteq> ?x) (take i xs) = take i xs" "filter (\<lambda>y. y \<noteq> ?x) (drop (Suc i) xs) = drop (Suc i) xs"
    by (auto intro!: filter_True)
  then have "filter (\<lambda>y. y \<noteq> ?x) (take i xs @ ?x # drop (Suc i) xs) = take i xs @ drop (Suc i) xs" by simp
  with xs show ?thesis by metis
qed

lemma insert_found:
  assumes "find_ok key find_contact" "find_contact b c = Some i" "bucket_ok key b"
  shows "kbucket_contact_insert find_contact copy_contact b c =
      (0, b\<lparr>contacts := contacts b ! i # take i (contacts b) @ drop (Suc i) (contacts b)\<rparr>) \<and>
    key c \<in> key ` set (contacts b) \<and>
    map key (contacts b ! i # take i (contacts b) @ drop (Suc i) (contacts b)) =
      mru_insert (nat (contact_max b)) (key c) (map key (contacts b))"
proof -
  let ?xs = "map key (contacts b)"
  from assms(1,2) have i: "i < length (contacts b)" "key (contacts b ! i) = key c"
    unfolding find_ok_def by (metis (mono_tags, lifting) option.case(2))+
  then have x: "?xs ! i = key c" "i < length ?xs" by simp_all
  then have "key c \<in> set ?xs" by (metis nth_mem)
  moreover have "map key (contacts b ! i # take i (contacts b) @ drop (Suc i) (contacts b)) =
      ?xs ! i # take i ?xs @ drop (Suc i) ?xs"
    using i by (simp add: take_map drop_map)
  ultimately show ?thesis
    using move_front [of i ?xs] x assms(2,3)
    by (simp add: kbucket_contact_insert_def mru_insert_def bucket_ok_def Let_def)
qed

lemma insert_not_found:
  assumes "find_ok key find_contact" "find_contact b c = None"
  shows "key c \<notin> key ` set (contacts b)"
proof -
  have "case find_contact b c of Some i \<Rightarrow> i < length (contacts b) \<and> key (contacts b ! i) = key c
      | None \<Rightarrow> key c \<notin> key ` set (contacts b)"
    using assms(1) unfolding find_ok_def by blast
  with assms(2) show ?thesis by simp
qed

lemma mru_insert_distinct: "distinct xs \<Longrightarrow> distinct (mru_insert k x xs)"
  by (simp add: mru_insert_def)

lemma mru_insert_keeps: "set xs \<subseteq> set (mru_insert k x xs)"
  by (auto simp: mru_insert_def)

subsection \<open>A sequence of insertions\<close>

text \<open>The keys a bucket for \<open>k\<close> contacts remembers: the first \<open>k\<close> distinct ones, the latest one at the head.\<close>

definition kept_keys :: "nat \<Rightarrow> 'k list \<Rightarrow> 'k list" where
  "kept_keys k keys = take k (rev (remdups (rev keys)))"

definition mru_keys :: "nat \<Rightarrow> 'k list \<Rightarrow> 'k list" where
  "mru_keys k keys = rev (remdups (filter (\<lambda>x. x \<in> set (kept_keys k keys)) keys))"

lemma remdups_snoc: "remdups (ys @ [x]) = filter (\<lambda>y. y \<noteq> x) (remdups ys) @ [x]"
  by (induction ys) auto

lemma kept_keys_snoc:
  "kept_keys k (keys @ [x]) =
     (if x \<in> set keys \<or> k \<le> length (remdups (rev keys)) then kept_keys k keys else kept_keys k keys @ [x])"
  by (auto simp: kept_keys_def take_Cons' not_le)

lemma set_kept_keys: "set (kept_keys k keys) \<subseteq> set keys"
  unfolding kept_keys_def using set_take_subset [of k "rev (remdups (rev keys))"] by simp

lemma length_kept_keys: "length (kept_keys k keys) = min k (card (set keys))"
  by (simp add: kept_keys_def length_remdups_card_conv)

lemma kept_keys_all: "card (set keys) \<le> k \<Longrightarrow> set (kept_keys k keys) = set keys"
  by (simp add: kept_keys_def length_remdups_card_conv)

lemma set_mru_keys: "set (mru_keys k keys) = set (kept_keys k keys)"
  using set_kept_keys [of k keys] by (auto simp: mru_keys_def)

lemma length_mru_keys: "length (mru_keys k keys) = min k (card (set keys))"
proof -
  have "distinct (mru_keys k keys)" "distinct (kept_keys k keys)" by (simp_all add: mru_keys_def kept_keys_def)
  then have "length (mru_keys k keys) = length (kept_keys k keys)"
    using set_mru_keys [of k keys] distinct_card by metis
  then show ?thesis by (simp add: length_kept_keys)
qed

lemma mru_keys_snoc: "mru_keys k (keys @ [x]) = mru_insert k x (mru_keys k keys)"
proof (cases "x \<in> set (kept_keys k (keys @ [x]))")
  case False
  then have "kept_keys k (keys @ [x]) = kept_keys k keys" by (auto simp: kept_keys_snoc split: if_splits)
  moreover have "x \<notin> set (mru_keys k keys)" using False calculation by (simp add: set_mru_keys)
  moreover have "k \<le> card (set keys)"
    using False kept_keys_all [of keys k] nat_le_linear [of k "card (set keys)"] by (auto simp: kept_keys_snoc length_remdups_card_conv split: if_splits)
  ultimately show ?thesis
    using False by (simp add: mru_insert_def length_mru_keys) (simp add: mru_keys_def)
next
  case True
  let ?ys = "filter (\<lambda>y. y \<in> set (kept_keys k (keys @ [x]))) keys"
  have l: "mru_keys k (keys @ [x]) = x # filter (\<lambda>y. y \<noteq> x) (rev (remdups ?ys))"
    using True by (simp add: mru_keys_def remdups_snoc rev_filter)
  show ?thesis
  proof (cases "x \<in> set (kept_keys k keys)")
    case in_kept: True
    then have "kept_keys k (keys @ [x]) = kept_keys k keys"
      using set_kept_keys [of k keys] by (auto simp: kept_keys_snoc)
    with l in_kept show ?thesis by (simp add: mru_insert_def set_mru_keys) (simp add: mru_keys_def)
  next
    case new: False
    with True have x: "x \<notin> set keys" "card (set keys) < k"
        "kept_keys k (keys @ [x]) = kept_keys k keys @ [x]"
      by (auto simp: kept_keys_snoc length_remdups_card_conv split: if_splits)
    have "?ys = filter (\<lambda>y. y \<in> set (kept_keys k keys)) keys"
      using x(1,3) by (intro filter_cong) auto
    moreover from this x(1) have "filter (\<lambda>y. y \<noteq> x) (rev (remdups ?ys)) = rev (remdups ?ys)"
      by (intro filter_True) auto
    ultimately show ?thesis
      using l new x(2) by (simp add: mru_insert_def set_mru_keys length_mru_keys) (simp add: mru_keys_def)
  qed
qed

definition insert_all :: "'c find_contact \<Rightarrow> 'c copy_contact \<Rightarrow> 'c list \<Rightarrow> 'c kademlia_bucket \<Rightarrow> 'c kademlia_bucket" where
  "insert_all find_contact copy_contact cs b =
     fold (\<lambda>c b. snd (kbucket_contact_insert find_contact copy_contact b c)) cs b"

subsection \<open>The properties\<close>

lemma insert_step:
  assumes "find_ok key find_contact" "copy_ok copy_contact" "bucket_ok key b"
    "kbucket_contact_insert find_contact copy_contact b c = (r, b')"
  shows "map key (contacts b') =
      (if key c \<notin> key ` set (contacts b) \<and> copy_contact c = None then map key (contacts b)
       else mru_insert (nat (contact_max b)) (key c) (map key (contacts b))) \<and>
    bucket_ok key b' \<and> contact_max b' = contact_max b \<and> set (contacts b) \<subseteq> set (contacts b') \<and>
    r = (if key c \<in> key ` set (contacts b') then 0 else if contact_ct b = contact_max b then - 1 else - 2)"
proof (cases "find_contact b c")
  case None
  note new = insert_not_found [OF assms(1) None]
  have copy: "copy_contact c = Some c' \<Longrightarrow> c' = c" for c' using assms(2) by (simp add: copy_ok_def)
  show ?thesis
  proof (cases "copy_contact c")
    case None
    with \<open>find_contact b c = None\<close> new assms(3,4) show ?thesis
      by (auto simp: kbucket_contact_insert_def mru_insert_def bucket_ok_def split: if_splits)
  next
    case (Some c')
    with copy [OF Some] \<open>find_contact b c = None\<close> new assms(3,4) show ?thesis
      by (auto simp: kbucket_contact_insert_def mru_insert_def bucket_ok_def split: if_splits)
  qed
next
  case (Some i)
  note f = insert_found [OF assms(1) Some assms(3)]
  let ?cs = "contacts b ! i # take i (contacts b) @ drop (Suc i) (contacts b)"
  have b': "r = 0" "b' = b\<lparr>contacts := ?cs\<rparr>" using f assms(4) by auto
  have i: "i < length (contacts b)"
    using assms(1) Some unfolding find_ok_def by (metis (mono_tags, lifting) option.case(2))
  have len: "length ?cs = length (contacts b)" using i by simp
  have set: "set ?cs = set (contacts b)"
    using id_take_nth_drop [OF i] by (metis Un_insert_right list.simps(15) set_append)
  have "distinct (map key ?cs)"
    using f assms(3) mru_insert_distinct unfolding bucket_ok_def by metis
  with f b' len set assms(3) show ?thesis
    by (simp add: bucket_ok_def)
qed

text \<open>C24. Inserting into a bucket refines the list of the most recent keys: the keys become those of \<open>mru_insert\<close>,
  or stay as they are when a new contact finds no memory; no key is ever dropped, the count and the bound are
  kept and no key is held twice. The status is 0 when the contact is in the bucket afterwards, -1 when the bucket
  was full, -2 without memory; it is never 1, which the comment announces for a contact that was there already.\<close>

theorem bucket_insert_refines_mru:
  assumes "find_ok key find_contact" "copy_ok copy_contact" "bucket_ok key b"
    "kbucket_contact_insert find_contact copy_contact b c = (r, b')"
  shows "map key (contacts b') =
      (if key c \<notin> key ` set (contacts b) \<and> copy_contact c = None then map key (contacts b)
       else mru_insert (nat (contact_max b)) (key c) (map key (contacts b))) \<and>
    bucket_ok key b' \<and> contact_max b' = contact_max b \<and> set (contacts b) \<subseteq> set (contacts b') \<and>
    r = (if key c \<in> key ` set (contacts b') then 0 else if contact_ct b = contact_max b then - 1 else - 2)"
  by (rule insert_step [OF assms])

text \<open>Contacts that are their own key, found by a search from the head.\<close>

definition find_example :: "nat find_contact" where
  "find_example b c =
     (let i = length (takeWhile (\<lambda>x. x \<noteq> c) (contacts b)) in if i < length (contacts b) then Some i else None)"

lemma find_example_ok: "find_ok (\<lambda>c. c) find_example"
proof -
  have "xs ! length (takeWhile (\<lambda>x. x \<noteq> c) xs) = c" if "length (takeWhile (\<lambda>x. x \<noteq> c) xs) < length xs" for xs and c :: nat
    using nth_length_takeWhile [OF that] by simp
  moreover have "c \<notin> set xs" if "\<not> length (takeWhile (\<lambda>x. x \<noteq> c) xs) < length xs" for xs and c :: nat
    using that takeWhile_shorter [of c xs "\<lambda>x. x \<noteq> c"] by blast
  ultimately show ?thesis by (auto simp: find_ok_def find_example_def Let_def)
qed

theorem bucket_insert_refines_mru_witness:
  "contacts (snd (kbucket_contact_insert find_example Some \<lparr>contact_max = 2, contact_ct = 2, contacts = [5, 7]\<rparr> 7)) = [7, 5] \<and>
   fst (kbucket_contact_insert find_example Some \<lparr>contact_max = 2, contact_ct = 2, contacts = [5, 7]\<rparr> 9) = - 1 \<and>
   fst (kbucket_contact_insert find_example Map.empty \<lparr>contact_max = 3, contact_ct = 2, contacts = [5, 7]\<rparr> 9) = - 2"
proof -
  let ?b = "\<lambda>n. \<lparr>contact_max = n, contact_ct = 2, contacts = [5, 7 :: nat]\<rparr>"
  have ok: "copy_ok Some" "copy_ok Map.empty" "bucket_ok (\<lambda>c. c) (?b 2)" "bucket_ok (\<lambda>c. c) (?b 3)"
    by (simp_all add: copy_ok_def bucket_ok_def)
  note p = bucket_insert_refines_mru [OF find_example_ok ok(1,3), of _ "fst (kbucket_contact_insert find_example Some (?b 2) c)"
    "snd (kbucket_contact_insert find_example Some (?b 2) c)" for c]
  note q = bucket_insert_refines_mru [OF find_example_ok ok(2,4), of 9 "fst (kbucket_contact_insert find_example Map.empty (?b 3) 9)"
    "snd (kbucket_contact_insert find_example Map.empty (?b 3) 9)"]
  from p [of 7] p [of 9] q show ?thesis by (simp add: mru_insert_def)
qed

text \<open>The keys of a bucket after any sequence of insertions, started empty.\<close>

lemma insert_all_keys:
  assumes "find_ok key find_contact" "\<And>c. copy_contact c = Some c" "contacts b = []" "contact_ct b = 0" "0 \<le> contact_max b"
  shows "map key (contacts (insert_all find_contact copy_contact cs b)) = mru_keys (nat (contact_max b)) (map key cs) \<and>
    bucket_ok key (insert_all find_contact copy_contact cs b) \<and>
    contact_max (insert_all find_contact copy_contact cs b) = contact_max b"
proof (induction cs rule: rev_induct)
  case Nil
  with assms(3-5) show ?case by (simp add: insert_all_def bucket_ok_def mru_keys_def)
next
  case (snoc c cs)
  let ?b = "insert_all find_contact copy_contact cs b"
  obtain r b' where ins: "kbucket_contact_insert find_contact copy_contact ?b c = (r, b')" by fastforce
  have "insert_all find_contact copy_contact (cs @ [c]) b = b'" using ins by (simp add: insert_all_def)
  moreover have "copy_ok copy_contact" using assms(2) by (simp add: copy_ok_def)
  moreover have mem: "copy_contact c \<noteq> None" using assms(2) by simp
  ultimately show ?case
    using insert_step [OF assms(1) _ _ ins] snoc mem by (simp add: mru_keys_snoc)
qed

text \<open>C25. A bucket keeps its oldest contacts: after any sequence of insertions into an empty bucket, with memory,
  it holds exactly the first \<open>contact_max\<close> distinct contacts of the sequence, each once, ordered by their latest
  insertion, and \<open>contact_ct\<close> counts them. What is inserted later, as often as it may be, never displaces them.\<close>

theorem bucket_keeps_first_k:
  assumes "find_ok key find_contact" "\<And>c. copy_contact c = Some c" "contacts b = []" "contact_ct b = 0" "0 \<le> contact_max b"
  shows "let b' = insert_all find_contact copy_contact cs b; keys = map key cs; kept = take (nat (contact_max b)) (rev (remdups (rev keys))) in
    map key (contacts b') = rev (remdups (filter (\<lambda>x. x \<in> set kept) keys)) \<and>
    contact_ct b' = min (contact_max b) (int (card (set keys)))"
proof -
  note keys = insert_all_keys [OF assms, of cs]
  then have "length (contacts (insert_all find_contact copy_contact cs b)) = min (nat (contact_max b)) (card (set (map key cs)))"
    by (metis length_map length_mru_keys)
  with keys assms(5) show ?thesis
    by (simp add: Let_def mru_keys_def kept_keys_def bucket_ok_def min_def nat_le_iff)
qed

theorem bucket_keeps_first_k_witness:
  "contacts (insert_all find_example Some [5, 7, 5, 9, 7] \<lparr>contact_max = 2, contact_ct = 0, contacts = []\<rparr>) = [7, 5]"
  using bucket_keeps_first_k [OF find_example_ok, of Some "\<lparr>contact_max = 2, contact_ct = 0, contacts = []\<rparr>" "[5, 7, 5, 9, 7]"]
  by (simp add: Let_def)

end
