(* ===== verification/Tests.thy ===== *)
theory Tests
  imports Readers Ben
begin

text \<open>
  The test programs of the repository, \<open>benr-api-test.c\<close>, \<open>benr-internal-test.c\<close> and \<open>test-benp.c\<close>, run on the
  model: a failed assertion is \<open>None\<close>. String literals are objects with their NUL byte; \<open>S(x)\<close> is the
  literal without it.
\<close>

definition require :: "bool \<Rightarrow> unit option" where
  "require b = (if b then Some () else None)"

definition init_lit :: "string \<Rightarrow> benr option" where
  "init_lit s = benr_init (literal s) 0 (of_nat (length s))"

subsection \<open>benr-api-test.c\<close>

text \<open>\<open>benr_eq\<close>: each value points into an object of its own.\<close>

definition benr_eq :: "bytes \<Rightarrow> benr \<Rightarrow> bytes \<Rightarrow> benr \<Rightarrow> bool option" where
  "benr_eq m1 a m2 b =
     (case (a, b) of
        (BENR_INT i, BENR_INT j) \<Rightarrow> Some (i = j)
      | (BENR_STRING s, BENR_STRING t) \<Rightarrow>
          if s_len s \<noteq> s_len t then Some False
          else do {
            x \<leftarrow> load_bytes m1 (s_start s) (unat (s_len s));
            y \<leftarrow> load_bytes m2 (s_start t) (unat (s_len t));
            Some (x = y)
          }
      | _ \<Rightarrow> Some False)"

definition api_integer :: "unit option" where
  "api_integer = do { b \<leftarrow> init_lit ''i1e''; require (b = BENR_INT 1) }"

definition api_negative :: "unit option" where
  "api_negative = do { b \<leftarrow> init_lit ''i-42561e''; require (b = BENR_INT (- 42561)) }"

definition no_list :: benr_list where "no_list = \<lparr>l_ctx = \<lparr>ctx_start = 0, ctx_len = 0\<rparr>\<rparr>"
definition no_dict :: benr_dict where "no_dict = \<lparr>d_ctx = \<lparr>ctx_start = 0, ctx_len = 0\<rparr>\<rparr>"
definition no_string :: benr_string where "no_string = \<lparr>s_start = 0, s_len = 0\<rparr>"

definition api_list :: "unit option" where
  "api_list = do {
     let m = literal ''li3ei6ei-1ee'';
     b \<leftarrow> init_lit ''li3ei6ei-1ee'';
     require (benr_kind b = 4);
     let (r, l) = benr_as_list b no_list;
     require (r \<ge> 0);
     let li = benr_list_iter_of l;
     (r, li, bl) \<leftarrow> benr_list_iter_next m li BENR_NONE;
     require (r \<ge> 0);
     require (bl = BENR_INT 3);
     (r, li, bl) \<leftarrow> benr_list_iter_next m li bl;
     require (r \<ge> 0);
     require (bl = BENR_INT 6);
     (r, li, bl) \<leftarrow> benr_list_iter_next m li bl;
     require (r \<ge> 0);
     require (bl = BENR_INT (- 1));
     (r, li, bl) \<leftarrow> benr_list_iter_next m li bl;
     require (r < 0)
   }"

text \<open>A list with a string that is an end marker.\<close>

definition api_magic :: "unit option" where
  "api_magic = do {
     let m = literal ''l1:ee'';
     b \<leftarrow> init_lit ''l1:ee'';
     let (r, l) = benr_as_list b no_list;
     require (r \<ge> 0);
     let li = benr_list_iter_of l;
     (r, li, bl) \<leftarrow> benr_list_iter_next m li BENR_NONE;
     require (r \<ge> 0);
     require (benr_kind bl = 1);
     let (x, s) = benr_as_string bl no_string;
     require (s_len s = 1);
     c \<leftarrow> load m (s_start s);
     require (c = chr CHR ''e'')
   }"

definition api_string :: "unit option" where
  "api_string = do {
     let m = literal ''5:hello'';
     b \<leftarrow> init_lit ''5:hello'';
     require (benr_kind b = 1);
     let (r, s) = benr_as_string b no_string;
     require (r \<ge> 0);
     require (s_len s = 5);
     x \<leftarrow> load_bytes m (s_start s) (unat (s_len s));
     require (x = str ''hello'')
   }"

definition key_lit :: "string \<Rightarrow> benr" where
  "key_lit s = BENR_STRING \<lparr>s_start = 0, s_len = of_nat (length s)\<rparr>"

definition api_dict :: "unit option" where
  "api_dict = do {
     let m = literal ''d3:onei1e5:seveni7ee'';
     b \<leftarrow> init_lit ''d3:onei1e5:seveni7ee'';
     let (r, d) = benr_as_dict b no_dict;
     require (r \<ge> 0);
     let di = benr_dict_iter_of d;
     (r, di, k, v) \<leftarrow> benr_dict_iter_next m di BENR_NONE BENR_NONE;
     require (r \<ge> 0);
     eq \<leftarrow> benr_eq (literal ''one'') (key_lit ''one'') m k;
     require eq;
     require (v = BENR_INT 1);
     (r, di, k, v) \<leftarrow> benr_dict_iter_next m di k v;
     require (r \<ge> 0);
     eq \<leftarrow> benr_eq (literal ''seven'') (key_lit ''seven'') m k;
     require eq;
     require (v = BENR_INT 7);
     (r, di, k, v) \<leftarrow> benr_dict_iter_next m di k v;
     require (r < 0)
   }"

definition api_nesting :: "unit option" where
  "api_nesting = do {
     let m = literal ''lded1:eli3eeee'';
     b \<leftarrow> init_lit ''lded1:eli3eeee'';
     let (r, l) = benr_as_list b no_list;
     require (r \<ge> 0);
     let li = benr_list_iter_of l;
     (r, li, b1) \<leftarrow> benr_list_iter_next m li BENR_NONE;
     require (r \<ge> 0);
     let (r, d) = benr_as_dict b1 no_dict;
     require (r \<ge> 0);
     let di = benr_dict_iter_of d;
     (r, di, b2, v2) \<leftarrow> benr_dict_iter_next m di BENR_NONE BENR_NONE;
     require (r < 0);
     (r, li, b1) \<leftarrow> benr_list_iter_next m li b1;
     require (r \<ge> 0);
     let (r, d) = benr_as_dict b1 d;
     require (r \<ge> 0);
     let di = benr_dict_iter_of d;
     (r, di, b2, v2) \<leftarrow> benr_dict_iter_next m di b2 v2;
     require (r \<ge> 0);
     eq \<leftarrow> benr_eq (literal ''e'') (key_lit ''e'') m b2;
     require eq;
     let (r, l2) = benr_as_list v2 no_list;
     require (r \<ge> 0);
     let li2 = benr_list_iter_of l2;
     (r, li2, b3) \<leftarrow> benr_list_iter_next m li2 BENR_NONE;
     require (r \<ge> 0);
     require (b3 = BENR_INT 3);
     (r, li2, b3) \<leftarrow> benr_list_iter_next m li2 b3;
     require (r < 0);
     (r, di, b2, v2) \<leftarrow> benr_dict_iter_next m di b2 v2;
     require (r < 0);
     (r, li, b1) \<leftarrow> benr_list_iter_next m li b1;
     require (r < 0)
   }"

definition benr_api_test_main :: "int option" where
  "benr_api_test_main = do {
     api_integer; api_negative; api_list; api_magic; api_string; api_dict; api_nesting; Some 0
   }"

subsection \<open>benr-internal-test.c\<close>

text \<open>The expected values, each with the object its string is in.\<close>

fun seq_eq :: "(bytes \<times> benr) list \<Rightarrow> bytes \<Rightarrow> benr_ctx \<Rightarrow> bool option" where
  "seq_eq [] m ctx = Some True"
| "seq_eq ((me, e1) # ev) m ctx = do {
     (e2, ctx) \<leftarrow> benr_next m ctx;
     if benr_kind e1 \<noteq> benr_kind e2 then Some False
     else (case (e1, e2) of
         (BENR_INT i, BENR_INT j) \<Rightarrow> if i \<noteq> j then Some False else seq_eq ev m ctx
       | (BENR_UINT i, BENR_UINT j) \<Rightarrow> if i \<noteq> j then Some False else seq_eq ev m ctx
       | (BENR_STRING s, BENR_STRING t) \<Rightarrow>
           if s_len s \<noteq> s_len t then Some False
           else do {
             x \<leftarrow> load_bytes me (s_start s) (unat (s_len s));
             y \<leftarrow> load_bytes m (s_start t) (unat (s_len s));
             if x \<noteq> y then Some False else seq_eq ev m ctx
           }
       | _ \<Rightarrow> if benr_is_error e1 then Some False else seq_eq ev m ctx)
   }"

definition benr_seq_eq :: "(bytes \<times> benr) list \<Rightarrow> string \<Rightarrow> bool option" where
  "benr_seq_eq ev s = seq_eq ev (literal s) \<lparr>ctx_start = 0, ctx_len = of_nat (length s)\<rparr>"

definition internal_a :: "(bytes \<times> benr) list" where
  "internal_a = [([], BENR_INT 1), ([], BENR_NONE)]"

definition internal_b :: "(bytes \<times> benr) list" where
  "internal_b = [([], BENR_DICT no_dict), ([], BENR_LIST no_list), ([], BENR_X_END), ([], BENR_X_END)]"

definition internal_c :: "(bytes \<times> benr) list" where
  "internal_c = [([], BENR_DICT no_dict), (literal ''hello'', key_lit ''hello''), ([], BENR_INT (- 1)), ([], BENR_X_END)]"

definition internal_d :: "(bytes \<times> benr) list" where
  "internal_d = [([], BENR_LIST no_list), (literal ''e'', key_lit ''e''), ([], BENR_X_END), ([], BENR_NONE)]"

definition internal_e :: "(bytes \<times> benr) list" where
  "internal_e = [([], BENR_LIST no_list), ([], BENR_DICT no_dict), ([], BENR_X_END), ([], BENR_DICT no_dict),
     (literal ''e'', key_lit ''e''), ([], BENR_LIST no_list), ([], BENR_INT 3), ([], BENR_X_END), ([], BENR_X_END),
     ([], BENR_X_END), ([], BENR_NONE)]"

definition require_eq :: "bool option \<Rightarrow> unit option" where
  "require_eq r = do { b \<leftarrow> r; require b }"

definition benr_internal_test_main :: "int option" where
  "benr_internal_test_main = do {
     require_eq (benr_seq_eq internal_a ''i1e'');
     require_eq (benr_seq_eq internal_b ''dlee'');
     require_eq (benr_seq_eq internal_c ''d5:helloi-1ee'');
     require_eq (benr_seq_eq internal_d ''l1:ee'');
     require_eq (benr_seq_eq internal_e ''lded1:eli3eeee'');
     Some 0
   }"

subsection \<open>test-benp.c\<close>

fun benp_kind :: "benp_ev \<Rightarrow> nat" where
  "benp_kind BENP_EV_DONE = 0"
| "benp_kind (BENP_EV_INTEGER _) = 1"
| "benp_kind (BENP_EV_STRING _) = 2"
| "benp_kind BENP_EV_LIST_START = 3"
| "benp_kind BENP_EV_DICT_START = 4"
| "benp_kind BENP_EV_X_END = 5"
| "benp_kind BENP_EV_ERROR_UNEXPECTED_EOF = 6"
| "benp_kind (BENP_EV_ERROR_UNEXPECTED_BYTE _) = 7"
| "benp_kind (BENP_EV_ERROR_STRING_TOO_LONG _) = 8"
| "benp_kind (BENP_EV_ERROR_UNEXPECTED_BYTE_IN_INT _) = 9"
| "benp_kind (BENP_EV_UINT _) = 10"

fun ev_eq :: "(bytes \<times> benp_ev) list \<Rightarrow> bytes \<Rightarrow> benp_ctx \<Rightarrow> bool option" where
  "ev_eq [] m ctx = Some True"
| "ev_eq ((me, e1) # ev) m ctx = do {
     (e2, ctx) \<leftarrow> benp_next m ctx;
     if benp_kind e1 \<noteq> benp_kind e2 then Some False
     else (case (e1, e2) of
         (BENP_EV_INTEGER i, BENP_EV_INTEGER j) \<Rightarrow> if i \<noteq> j then Some False else ev_eq ev m ctx
       | (BENP_EV_UINT i, BENP_EV_UINT j) \<Rightarrow> if i \<noteq> j then Some False else ev_eq ev m ctx
       | (BENP_EV_STRING s, BENP_EV_STRING t) \<Rightarrow>
           if bb_len s \<noteq> bb_len t then Some False
           else do {
             x \<leftarrow> load_bytes me (bb_start s) (unat (bb_len s));
             y \<leftarrow> load_bytes m (bb_start t) (unat (bb_len s));
             if x \<noteq> y then Some False else ev_eq ev m ctx
           }
       | _ \<Rightarrow> ev_eq ev m ctx)
   }"

definition benp_eq :: "(bytes \<times> benp_ev) list \<Rightarrow> string \<Rightarrow> bool option" where
  "benp_eq ev s = ev_eq ev (literal s) (benp_init 0 (of_nat (length s)))"

definition benp_a :: "(bytes \<times> benp_ev) list" where
  "benp_a = [([], BENP_EV_INTEGER 1), ([], BENP_EV_DONE)]"

definition benp_b :: "(bytes \<times> benp_ev) list" where
  "benp_b = [([], BENP_EV_DICT_START), ([], BENP_EV_LIST_START), ([], BENP_EV_X_END), ([], BENP_EV_X_END)]"

definition benp_c :: "(bytes \<times> benp_ev) list" where
  "benp_c = [([], BENP_EV_DICT_START), (literal ''hello'', BENP_EV_STRING \<lparr>bb_start = 0, bb_len = 5\<rparr>),
     ([], BENP_EV_INTEGER (- 1)), ([], BENP_EV_X_END)]"

definition test_benp_main :: "int option" where
  "test_benp_main = do {
     require_eq (benp_eq benp_a ''i1e'');
     require_eq (benp_eq benp_b ''dlee'');
     require_eq (benp_eq benp_c ''d5:helloi-1ee'');
     Some 0
   }"

subsection \<open>The tests pass\<close>

lemma api_blocks:
  "api_integer = Some ()" "api_negative = Some ()" "api_list = Some ()" "api_magic = Some ()" "api_string = Some ()"
  "api_dict = Some ()" "api_nesting = Some ()"
  by code_simp+

lemma internal_blocks:
  "benr_seq_eq internal_a ''i1e'' = Some True" "benr_seq_eq internal_b ''dlee'' = Some True"
  "benr_seq_eq internal_c ''d5:helloi-1ee'' = Some True" "benr_seq_eq internal_d ''l1:ee'' = Some True"
  "benr_seq_eq internal_e ''lded1:eli3eeee'' = Some True"
  by code_simp+

lemma benp_blocks:
  "benp_eq benp_a ''i1e'' = Some True" "benp_eq benp_b ''dlee'' = Some True" "benp_eq benp_c ''d5:helloi-1ee'' = Some True"
  by code_simp+

lemma tests_pass:
  "benr_api_test_main = Some 0 \<and> benr_internal_test_main = Some 0 \<and> test_benp_main = Some 0"
  by (simp add: benr_api_test_main_def benr_internal_test_main_def test_benp_main_def api_blocks internal_blocks
      benp_blocks require_eq_def require_def)

subsection \<open>What the comparison of events decides\<close>

text \<open>The expected event \<open>e1\<close>, with its string in the object \<open>me\<close>, against the event \<open>e2\<close> read from \<open>m\<close>: the same
  kind, and the same number or the same bytes. The locations in errors are not compared.\<close>

definition has_value :: "benp_ev \<Rightarrow> bool" where
  "has_value e \<longleftrightarrow> benp_kind e \<in> {1, 2, 10}"

definition ev_matches :: "bytes \<Rightarrow> bytes \<times> benp_ev \<Rightarrow> benp_ev \<Rightarrow> bool" where
  "ev_matches m x e2 = (case x of (me, e1) \<Rightarrow>
     benp_kind e1 = benp_kind e2 \<and> (has_value e1 \<longrightarrow> ev_tok me e1 = ev_tok m e2))"

fun ev_inside :: "bytes \<Rightarrow> benp_ev \<Rightarrow> bool" where
  "ev_inside m (BENP_EV_STRING s) = inside m (bb_start s) (unat (bb_len s))"
| "ev_inside m e = True"

lemma benp_next_inside:
  assumes "in_benp m c"
  obtains e c' where "benp_next m c = Some (e, c')" "in_benp m c'" "ev_inside m e"
proof -
  let ?c = "\<lparr>ctx_start = bp_start c, ctx_len = bp_len c\<rparr>"
  have c: "benp_of_ctx ?c = c" by (simp add: benp_of_ctx_def mk_benp_def)
  have "in_ctx m ?c" using assms by simp
  then obtain b c' where b: "benr_next m ?c = Some (b, c')" "in_ctx m c'" "benr_inside m b"
    by (rule benr_next_safe)
  have "ev_inside m (benp_of_benr b)" using b(3) by (cases b) simp_all
  moreover have "benp_next m c = Some (benp_of_benr b, benp_of_ctx c')"
    using benp_next_benr [of m ?c] b(1) c by simp
  ultimately show thesis using that b(2) by simp
qed

lemma view_eq_length:
  fixes n n' :: u64
  assumes "view m p (unat n) = view m' p' (unat n')" "inside m p (unat n)" "inside m' p' (unat n')"
  shows "n = n'"
  using arg_cong [OF assms(1), of length] assms(2,3) by (simp add: length_view word_unat_eq_iff)

lemma ev_eq_step:
  assumes nx: "benp_next m c = Some (e2, c')" and i: "ev_inside m e2" "ev_inside me e1"
  shows "ev_eq ((me, e1) # ev) m c = (if ev_matches m (me, e1) e2 then ev_eq ev m c' else Some False)"
proof (cases "benp_kind e1 = benp_kind e2")
  case True
  then show ?thesis using nx i
    by (cases e1; cases e2)
       (auto simp: ev_matches_def has_value_def load_bytes_def dest: view_eq_length)
qed (use nx in \<open>simp add: ev_matches_def\<close>)

lemma ev_eq_events:
  assumes "in_benp m c" "\<And>me e. (me, e) \<in> set ev \<Longrightarrow> ev_inside me e"
  shows "\<exists>es. benp_events (length ev) m c = Some es \<and> ev_eq ev m c = Some (list_all2 (ev_matches m) ev es)"
  using assms
proof (induction ev arbitrary: c)
  case (Cons x ev)
  obtain me e1 where x: "x = (me, e1)" by (cases x)
  from Cons.prems(1) obtain e2 c' where nx: "benp_next m c = Some (e2, c')" "in_benp m c'" "ev_inside m e2"
    by (rule benp_next_inside)
  obtain es where es: "benp_events (length ev) m c' = Some es" "ev_eq ev m c' = Some (list_all2 (ev_matches m) ev es)"
    using Cons.IH [OF nx(2)] Cons.prems(2) by auto
  have "ev_eq (x # ev) m c = (if ev_matches m x e2 then ev_eq ev m c' else Some False)"
    unfolding x using nx Cons.prems(2) x by (intro ev_eq_step) auto
  with nx(1) es show ?case by simp
qed simp

text \<open>C38. The test for events decides what it is meant to: against any bytes and any list of expected events whose
  strings are inside their objects, \<open>benp_eq\<close> returns (none of its comparisons reads outside an object), and it
  returns true exactly if the expected events are, one for one, the first events that \<open>benp_next\<close> reads:
  the same kinds, numbers and string contents. Two errors of one kind count as equal, wherever they point.\<close>

theorem benp_eq_decides:
  assumes s: "length s < 2 ^ 64" and ev: "\<And>me e. (me, e) \<in> set ev \<Longrightarrow> ev_inside me e"
  shows "\<exists>es. benp_events (length ev) (literal s) (benp_init 0 (of_nat (length s))) = Some es \<and>
    benp_eq ev s = Some (list_all2 (ev_matches (literal s)) ev es)"
proof -
  have "in_benp (literal s) (benp_init 0 (of_nat (length s)))"
    using s by (simp add: benp_init_def inside_def literal_def str_def unat_of_nat take_bit_nat_eq_self)
  then show ?thesis using ev unfolding benp_eq_def by (rule ev_eq_events)
qed

theorem benp_eq_decides_witness:
  "\<exists>es. benp_events 4 (literal ''d5:helloi-1ee'') (benp_init 0 13) = Some es \<and>
    list_all2 (ev_matches (literal ''d5:helloi-1ee'')) benp_c es"
proof -
  have "ev_inside me e" if "(me, e) \<in> set benp_c" for me e
    using that by (auto simp: benp_c_def inside_def literal_def str_def)
  moreover have "length benp_c = 4" by (simp add: benp_c_def)
  ultimately show ?thesis
    using benp_eq_decides [of "''d5:helloi-1ee''" benp_c] by (simp add: benp_blocks)
qed

end
