(* ===== verification/Sketches.thy ===== *)
theory Sketches
  imports "HOL-Library.Word"
begin

text \<open>
  The declarations of \<open>hornet.c\<close> and \<open>mule_ec.h\<close>, which no function of the program uses yet, and the byte order
  probe of \<open>config.h\<close>. Types the headers name and do not declare are type variables; structures without
  members have one value.
\<close>

subsection \<open>hornet.c\<close>

datatype hornet_router = Hornet_router
datatype hornet_fs = Hornet_fs
datatype hornet_ahdr = Hornet_ahdr

record hornet =
  hornet_k :: "32 word" \<comment> \<open>security parameter\<close>
  hornet_r :: "32 word" \<comment> \<open>maximum length of a path\<close>

subsection \<open>mule_ec.h\<close>

type_synonym ec_opcode_t = "8 word"

record ('flags, 'ct, 'tag) ec_pkt =
  ec_flags :: 'flags
  ec_opcode :: ec_opcode_t
  ec_tag_ct :: 'ct
  ec_children :: "'tag list"

record ('tag, 'tagtype, 'data) ec_tag =
  ec_tag :: 'tag
  ec_type :: 'tagtype
  ec_data :: "'data list"

datatype ec_opcode_e = EC_OP_AUTH_REQ

fun ec_opcode_value :: "ec_opcode_e \<Rightarrow> int" where
  "ec_opcode_value EC_OP_AUTH_REQ = 0x02"

datatype ec_tag_e = EC_TAG_CLIENT_NAME | EC_TAG_PASSWD_HASH | EC_TAG_PROTOCOL_VERSION | EC_TAG_CLIENT_VERSION | EC_TAG_VERSION_ID

fun ec_tag_value :: "ec_tag_e \<Rightarrow> int" where
  "ec_tag_value EC_TAG_CLIENT_NAME = 0x06"
| "ec_tag_value EC_TAG_PASSWD_HASH = 0x04"
| "ec_tag_value EC_TAG_PROTOCOL_VERSION = 0x0c"
| "ec_tag_value EC_TAG_CLIENT_VERSION = 0x08"
| "ec_tag_value EC_TAG_VERSION_ID = 0x0e"

datatype ec_tagtype_e = EC_TAGTYPE_HASH16 | EC_TAGTYPE_STRING | EC_TAGTYPE_UINT32 | EC_TAGTYPE_FLOAT32 | EC_TAGTYPE_BOOL
  | EC_TAGTYPE_BOOLARRAY | EC_TAGTYPE_BLOB | EC_TAGTYPE_UINT16 | EC_TAGTYPE_UINT8 | EC_TAGTYPE_BSOB | EC_TAGTYPE_UINT64
  | EC_TAGTYPE_STR1

text \<open>An enumerator without a value is one more than the one before it: they count on from \<open>EC_TAGTYPE_STRING\<close>.\<close>

fun ec_tagtype_value :: "ec_tagtype_e \<Rightarrow> int" where
  "ec_tagtype_value EC_TAGTYPE_HASH16 = 0x01"
| "ec_tagtype_value EC_TAGTYPE_STRING = 0x02"
| "ec_tagtype_value EC_TAGTYPE_UINT32 = 0x02 + 1"
| "ec_tagtype_value EC_TAGTYPE_FLOAT32 = 0x02 + 2"
| "ec_tagtype_value EC_TAGTYPE_BOOL = 0x02 + 3"
| "ec_tagtype_value EC_TAGTYPE_BOOLARRAY = 0x02 + 4"
| "ec_tagtype_value EC_TAGTYPE_BLOB = 0x02 + 5"
| "ec_tagtype_value EC_TAGTYPE_UINT16 = 0x02 + 6"
| "ec_tagtype_value EC_TAGTYPE_UINT8 = 0x02 + 7"
| "ec_tagtype_value EC_TAGTYPE_BSOB = 0x02 + 8"
| "ec_tagtype_value EC_TAGTYPE_UINT64 = 0x02 + 9"
| "ec_tagtype_value EC_TAGTYPE_STR1 = 0x11"

text \<open>The values tell the enumerators apart, and leave \<open>STR1\<close> to \<open>STR16\<close> the range behind the others.\<close>

lemma ec_tag_value_inj: "ec_tag_value x = ec_tag_value y \<longleftrightarrow> x = y"
  by (cases x; cases y) simp_all

lemma ec_tagtype_value_inj: "ec_tagtype_value x = ec_tagtype_value y \<longleftrightarrow> x = y"
  by (cases x; cases y) simp_all

lemma ec_tagtype_value_range: "x \<noteq> EC_TAGTYPE_STR1 \<Longrightarrow> 0 < ec_tagtype_value x \<and> ec_tagtype_value x < ec_tagtype_value EC_TAGTYPE_STR1"
  by (cases x) simp_all

subsection \<open>config.h: the byte order\<close>

text \<open>The macros of the compiler the probe looks at, and its outcome: the two values it defines, with a warning
  or without, or the error.\<close>

record predefined =
  byte_order :: "int option"
  order_little :: "int option"
  order_big :: "int option"
  tinyc :: bool

datatype probe = Probed bool int int | Unexpected

definition byte_order_probe :: "predefined \<Rightarrow> probe" where
  "byte_order_probe p =
     (let little = byte_order p \<noteq> None \<and> order_little p \<noteq> None \<and> byte_order p = order_little p;
          big = byte_order p \<noteq> None \<and> order_big p \<noteq> None \<and> byte_order p = order_big p in
      if \<not> little then
        (if big then Probed False 0 1
         else if tinyc p then Probed False 1 0
         else Probed True 0 0)
      else (if \<not> big then Probed False 1 0 else Unexpected))"

text \<open>Where the compiler names two different byte orders, the probe finds the one it uses, and no other; it fails
  only where it cannot tell them apart, and never finds both.\<close>

lemma byte_order_probe_finds:
  "order_little p = Some l \<Longrightarrow> order_big p = Some b \<Longrightarrow> l \<noteq> b \<Longrightarrow>
     (byte_order p = Some l \<longrightarrow> byte_order_probe p = Probed False 1 0) \<and>
     (byte_order p = Some b \<longrightarrow> byte_order_probe p = Probed False 0 1)"
  by (simp add: byte_order_probe_def)

lemma byte_order_probe_one: "byte_order_probe p = Probed w x y \<Longrightarrow> (w \<longleftrightarrow> x + y = 0) \<and> {x, y} \<subseteq> {0, 1} \<and> x + y \<le> 1"
  by (auto simp: byte_order_probe_def Let_def split: if_splits)

lemma byte_order_probe_Unexpected:
  "byte_order_probe p = Unexpected \<longleftrightarrow> byte_order p \<noteq> None \<and> order_little p = byte_order p \<and> order_big p = byte_order p"
  by (auto simp: byte_order_probe_def Let_def)

end
