(* ===== verification/Spec2Isabelle.thy ===== *)
theory Spec2Isabelle
  imports Bencode_Properties Krpc_Properties Nodes_Properties Dht_Properties Nnode_Properties Getopt Kademlia Tests Sketches
begin

text \<open>
  Peerduct is a collection of peer-to-peer building blocks in C: readers and writers of bencode, a node of the
  BitTorrent DHT that speaks KRPC (bencoded dictionaries in UDP packets), a parser of eMule's \<open>nodes.dat\<close> contact
  files, and the beginnings of a Kademlia node with a JSON configuration. This development models the C code of
  the repository function by function and proves what it does.

  \<^bold>\<open>How the parts interact.\<close> A packet of the DHT node is written by \<open>krpc_gen_ping\<close> with the writers of \<open>ben.h\<close> and
  read by \<open>krpc_msg_parse\<close> with the iterators of \<open>benr.c\<close>, which skip nested values with the tokenizer
  \<open>benr_next\<close>. \<open>benp.c\<close> is a second tokenizer with the same language. The program of \<open>bt_dht.c\<close> owns a socket and
  one peer; its callbacks ping the peer. \<open>nodes_dat.c\<close> is fed a file in chunks by \<open>nd_reader.c\<close> and \<open>unix.c\<close> and
  returns a list of \<open>struct peer\<close> that \<open>peer.c\<close> frees. \<open>nnode.c\<close> reads its configuration through
  \<open>cfg_json.c\<close>.

  \<^bold>\<open>Conventions.\<close> A C integer is a word of its width (\<open>size_t\<close> and \<open>uintmax_t\<close> have 64 bits). A pointer into an object
  is its offset in the list of the object's bytes; a read or copy outside the object is \<open>None\<close>, so every theorem
  that a result is \<open>Some\<close> is also a theorem that the memory accesses are inside. Signed overflow and the other
  undefined behaviour of C are \<open>None\<close> where the code can meet them. An output parameter is passed in and returned.
  Code that is not in the repository is an argument: \<open>malloc\<close> (any choice of a free address, or failure), the ccan
  darray (\<open>darray_ops\<close>, with \<open>darray_ok\<close>: it appends), libev (\<open>ev_ops\<close>, with \<open>ev_ok\<close>: a started timer expires
  after its delay), sockets, the resolver, \<open>getnameinfo\<close>, yajl, \<open>rand\<close>, the byte order of the host. Each property
  with such a hypothesis has a witness with a concrete function for it.

  \<^bold>\<open>Theories and the code they model.\<close>
  \<^item> \<open>Prelude\<close>: words, memory objects, checked reads and copies, decimal digits, C strings, and the
    collections \<open>cursor_laws\<close>, \<open>mem_simps\<close>, \<open>dec_simps\<close>.
  \<^item> \<open>Cursor\<close>, \<open>Tokenizer\<close>: the interfaces \<open>byte_cursor\<close>, \<open>uint_scanner\<close> and \<open>tokenizer\<close>, which both readers satisfy;
    what they share is proved once there. \<open>Bencode\<close>: the abstract side, a lexer and the values of bencode.
  \<^item> \<open>Benr\<close> (\<open>benr.c\<close>, \<open>benr.h\<close>): \<open>benr_ctx\<close> is a cursor; \<open>ctx_peek\<close>, \<open>ctx_adv\<close>, \<open>ctx_next\<close>, \<open>benr_init_uint\<close>,
    \<open>benr_next\<close>, \<open>ctx_adv_container\<close>, the two iterators and the accessors. \<open>Benr_Reading\<close>: memory safety and
    refinement of the lexer; \<open>Benr_Iter\<close>: the interface \<open>item_iterator\<close>, interpreted for lists and for dictionaries;
    \<open>Benr_Api\<close>: a client that walks a whole value through the interface; \<open>Benr_Scan\<close>: the container scan and both
    iterators on any bytes, against reference functions, with the interface \<open>scanning_iterator\<close>, which says on
    which data the calling loop ends; \<open>Benr_Types\<close>: everything a client can get
    through the interface, as mutually inductive predicates, and its type soundness.
  \<^item> \<open>Benp\<close> (\<open>benp.c\<close>, \<open>benp.h\<close>) and \<open>Readers\<close>: the event parser, and that it computes what \<open>benr_next\<close> computes.
    \<open>Ben\<close> (\<open>ben.h\<close>): the writers. \<open>Bencode_Properties\<close>: their properties.
  \<^item> \<open>Krpc\<close> (\<open>bt_dht.c\<close>, messages): \<open>krpc_msg_parse\<close> with its parts and \<open>krpc_gen_ping\<close>, \<open>krpc_gen_ping_response\<close>.
    \<open>Krpc_Reading\<close>, \<open>Krpc_Meaning\<close>: safety, and the meaning over bencoded values. \<open>Krpc_Termination\<close>: on which bytes
    the parser returns; \<open>Krpc_Broken_Ping\<close>: what it makes of pings and responses with a NUL byte in the
    identifier. \<open>Krpc_Properties\<close>.
  \<^item> \<open>Dht\<close> (\<open>bt_dht.c\<close>, program): \<open>sock\<close> is \<open>struct sock\<close> with the time of the loop, the peers on the heap and the
    datagrams sent; \<open>send_ping_to_peer\<close>, \<open>on_peer_timeout\<close>, \<open>sock_cb\<close>, \<open>add_peer\<close>, \<open>dht_main\<close> (\<open>main\<close> up to \<open>ev_run\<close>);
    \<open>dht_step\<close> is what \<open>ev_run\<close> may do next, \<open>dht_reach\<close> the states reached, \<open>dht_quiet\<close> those reached from a
    given one without a datagram, and \<open>dht_punctual\<close> those reached when timers are called with bounded delay. \<open>Dht_Properties\<close>.
  \<^item> \<open>Nodes_Dat\<close> (\<open>nodes_dat.c\<close>, \<open>nodes_dat.h\<close>, \<open>peer.c\<close>, \<open>peer.h\<close>): the parser context, header, entries, peers on the
    heap. \<open>Nodes_Heap\<close>, \<open>Nodes_Parsing\<close>, \<open>Nodes_Entries\<close>, \<open>Nodes_File\<close>, \<open>Nodes_Whole\<close>: its invariant and what it
    knows after any part of a file; \<open>Chunks\<close>: the interface \<open>incremental\<close>, by which the cuts between chunks do not
    matter, interpreted in \<open>Nodes_Result\<close>. \<open>Nodes_Calls\<close>: single calls from any state (the header completed, the
    last entry with bytes behind it, no memory), with the second interpretation of \<open>incremental\<close>. \<open>Reader\<close>: \<open>nd_reader.c\<close> and \<open>load_peers\<close> of \<open>unix.c\<close>.
    \<open>Nodes_Properties\<close>.
  \<^item> \<open>Getopt\<close>: POSIX \<open>getopt\<close> for the option strings used, and the command lines of \<open>main.c\<close>, \<open>unix.c\<close>, \<open>nnode.c\<close>
    with their diagnostics.
  \<^item> \<open>Nnode\<close>, \<open>Nnode_Properties\<close>: \<open>nnode.c\<close>, \<open>cfg_json.c\<close>. \<open>Kademlia\<close>: the bucket of \<open>kademlia.c\<close>.
    Neither \<open>nnode.c\<close> nor \<open>kademlia.c\<close> compiles as it stands: the model is of the control flow they spell out, and
    \<open>list_add\<close> of the bucket is read as the insertion at the head that its name has in the kernel's lists.
  \<^item> \<open>Sketches\<close>: the declarations of \<open>hornet.c\<close> and \<open>mule_ec.h\<close>, the byte order probe of \<open>config.h\<close>.
  \<^item> \<open>Tests\<close>: the test programs \<open>benr-api-test.c\<close>, \<open>benr-internal-test.c\<close>, \<open>test-benp.c\<close>.

  \<^bold>\<open>What is shown.\<close> For bencode: the readers never leave their object, refine the lexer, read back every encoded value
  through the public interface, and find the end of a container; the interface is type sound on any bytes; writer and reader are inverse; \<open>benp_next\<close> and
  \<open>benr_next\<close> agree; the length prefix wraps at \<open>2 ^ 64\<close>; an iteration ends exactly on the data
  \<open>item_ends\<close> accepts, so not over truncated data, and the events come to rest on any bytes. For KRPC:
  parsing is memory safe, finds type and query of every complete message, and understands the program's own
  pings; it rejects the program's own responses (those with a NUL byte in the
  identifier it finds no type in, or does not return on), never reports success, and returns exactly on the data
  \<open>krpc_returns\<close> describes. For the DHT node: every outcome of its start, an invariant of every reachable state,
  that pings go on for ever without receiving anything and how often, what another node's parser makes of them, and which steps are
  undefined. For
  \<open>nodes.dat\<close>: any chunking of a file of version 0 or 2 gives its entries in order, a file cut short prints the
  entries that are complete, every call keeps the
  invariant of the list (also without memory, and on garbage), peers are freed once, a version it does not know is refused
  however the header is cut, a failed allocation hides behind the bytes consumed before it, and bytes behind the last
  entry are parsed again; \<open>nd_reader\<close> is defined on every file unless \<open>getnameinfo\<close> fails for the first peer. For the rest: a bucket refines a list of most recent keys and keeps the first ones it
  was given, a configuration text is read
  beyond its end, and the command lines do what they do; the repository's tests pass, and their comparison of events decides
  equality of kinds and values.

  \<^bold>\<open>Termination and fuel.\<close> Loops that walk a buffer are structural or have a measure (the bytes left) and are total.
  Three loops may run for ever in C: the scan of \<open>krpc_msg_parse\<close> over a broken dictionary, and freeing or printing
  a list of peers that is a cycle. They are \<open>partial_function (option)\<close>, where \<open>None\<close> is also the value of not
  ending; the properties prove that they end with \<open>Some\<close> on complete messages and on the lists the parser
  builds, and that the scan does not end on a broken dictionary. The callers' loops over an iterator (\<open>read_all\<close>,
  \<open>walk\<close>) have fuel; fuel of the length of the encoding is enough, since every item takes a byte. The
  event loop is a relation, with no bound. The depth of the container scan is a \<open>u64\<close>: it cannot wrap in an object of less than
  \<open>2 ^ 63\<close> bytes.

  \<^bold>\<open>Not modelled.\<close> The text of the diagnostics of \<open>bt_dht.c\<close> and of the comparisons in the tests (what they read is
  modelled); the rounding of \<open>ev_tstamp\<close> (times are rational); locales and the environment (\<open>isdigit\<close> is that of
  ASCII, \<open>getopt\<close> permutes its arguments); that \<open>isdigit\<close> of a negative \<open>char\<close> is undefined in C where \<open>char\<close> is signed
  (it is false here); the limit \<open>INT_MAX\<close> of the formatted appends on what one call writes (only the lengths the code
  itself converts to \<open>int\<close> have it); the overlay of error and query in the union of \<open>krpc_msg\<close>, which are two fields
  here (the code never writes the one and reads the other); \<open>spawn_ctrl_thread\<close> of \<open>unix.c\<close>, which is cut off in the middle of a
  declaration; \<open>emule_kad.c\<close>, which is one comment; \<open>byte_stream.h\<close> and \<open>peer_store.h\<close> (prototypes without
  definitions); the probes of \<open>config.h\<close> for attributes and library functions (constants), the build files and the
  Python dump script. What is left of the C files beyond that are comments, includes and prototypes.
\<close>

end
